theory Spec2Isabelle
  imports
    Main
    "HOL-Library.Word"
    "HOL-Library.Multiset"
    "HOL-Library.Char_ord"
    "HOL-Library.List_Lexorder"
begin

unbundle bit_operations_syntax

section \<open>Vulkan bootstrap of \<open>hello_triangle_app.h\<close>\<close>

subsection \<open>Types and constants of the Vulkan and SDL headers\<close>

text \<open>
  The C types the class works with. \<open>uint32_t\<close> and \<open>VkBool32\<close> are 32-bit words; the C
  enums \<open>VkFormat\<close>, \<open>VkColorSpaceKHR\<close> and \<open>VkPresentModeKHR\<close> are integers, since the
  runtime may report any enumerator, also ones the program never names. The enumerator
  values and extension-name macros are the ones of \<open>vulkan_core.h\<close>.
\<close>

type_synonym uint32_t = "32 word"
type_synonym VkBool32 = "32 word"
type_synonym VkFormat = int
type_synonym VkColorSpaceKHR = int
type_synonym VkPresentModeKHR = int

definition VK_FORMAT_B8G8R8A8_SRGB :: VkFormat where
  "VK_FORMAT_B8G8R8A8_SRGB = 50"

definition VK_COLOR_SPACE_SRGB_NONLINEAR_KHR :: VkColorSpaceKHR where
  "VK_COLOR_SPACE_SRGB_NONLINEAR_KHR = 0"

definition VK_PRESENT_MODE_MAILBOX_KHR :: VkPresentModeKHR where
  "VK_PRESENT_MODE_MAILBOX_KHR = 1"

definition VK_PRESENT_MODE_FIFO_KHR :: VkPresentModeKHR where
  "VK_PRESENT_MODE_FIFO_KHR = 2"

definition VK_QUEUE_GRAPHICS_BIT :: uint32_t where
  "VK_QUEUE_GRAPHICS_BIT = 1"

definition UINT32_MAX :: uint32_t where
  \<comment> \<open>\<open>std::numeric_limits<uint32_t>::max()\<close>\<close>
  "UINT32_MAX = - 1"

definition VK_KHR_SWAPCHAIN_EXTENSION_NAME :: string where
  "VK_KHR_SWAPCHAIN_EXTENSION_NAME = ''VK_KHR_swapchain''"

definition VK_EXT_DEBUG_UTILS_EXTENSION_NAME :: string where
  "VK_EXT_DEBUG_UTILS_EXTENSION_NAME = ''VK_EXT_debug_utils''"

definition VK_KHR_PORTABILITY_ENUMERATION_EXTENSION_NAME :: string where
  "VK_KHR_PORTABILITY_ENUMERATION_EXTENSION_NAME = ''VK_KHR_portability_enumeration''"

datatype VkSharingMode = VK_SHARING_MODE_EXCLUSIVE | VK_SHARING_MODE_CONCURRENT

record VkSurfaceFormatKHR =
  format :: VkFormat
  colorSpace :: VkColorSpaceKHR

record VkExtent2D =
  width :: uint32_t
  height :: uint32_t

record VkSurfaceCapabilitiesKHR =
  minImageCount :: uint32_t
  maxImageCount :: uint32_t
  currentExtent :: VkExtent2D
  minImageExtent :: VkExtent2D
  maxImageExtent :: VkExtent2D
  currentTransform :: uint32_t

text \<open>
  Every failure of the pipeline is fatal. \<open>AssertFailed\<close> is a failed \<open>ASSERT\<close> or
  \<open>DASSERT\<close>; \<open>UndefinedBehaviour\<close> marks a call of a standard-library function outside
  its precondition, where C++ fixes no result.
\<close>

datatype error = AssertFailed | UndefinedBehaviour

text \<open>
  Modelled from the spec: the macros \<open>ASSERT\<close> and \<open>DASSERT\<close> of \<open>asserts.h\<close>, a header
  of the repository that is not among the sources. By the specification (section 7) no
  failure is caught or retried and each one ends the process at once, and the format list
  is non-empty as a precondition of the format selection (section 4.6). So a failed
  assertion ends the function with \<open>AssertFailed\<close>, and the code after a passed one runs;
  \<open>continue\<close> is that code. Where \<open>DASSERT\<close> is compiled out, the read of \<open>formats[0]\<close>
  that it guards is out of range on an empty vector, which is no result either.
\<close>

definition ASSERT :: "bool \<Rightarrow> error + 'a \<Rightarrow> error + 'a" where
  "ASSERT cond continue = (if cond then continue else Inl AssertFailed)"

definition DASSERT :: "bool \<Rightarrow> error + 'a \<Rightarrow> error + 'a" where
  "DASSERT cond continue = (if cond then continue else Inl AssertFailed)"

subsection \<open>Physical devices as the runtime describes them\<close>

text \<open>
  A \<open>VkPhysicalDevice\<close> is an opaque handle; the program learns about it through queries
  only. The record holds the answers of the runtime for one device and the surface of the
  application: per queue family the \<open>queueFlags\<close> of its \<open>VkQueueFamilyProperties\<close> and
  the \<open>VkBool32\<close> that \<open>vkGetPhysicalDeviceSurfaceSupportKHR\<close> writes for its index, the
  \<open>extensionName\<close>s of \<open>vkEnumerateDeviceExtensionProperties\<close>, and the capabilities,
  formats and present modes of the surface queries.
\<close>

record queue_family =
  queueFlags :: uint32_t
  surface_support :: VkBool32

record VkPhysicalDevice =
  q_families :: "queue_family list"
  extensions :: "string list"
  surface_caps :: VkSurfaceCapabilitiesKHR
  surface_formats :: "VkSurfaceFormatKHR list"
  surface_present_modes :: "VkPresentModeKHR list"

subsection \<open>Swapchain negotiation\<close>

definition preferred_format :: "VkSurfaceFormatKHR \<Rightarrow> bool" where
  \<comment> \<open>the test of the loop body in \<open>chooseSwapSurfaceFormat\<close>\<close>
  "preferred_format f \<longleftrightarrow>
     format f = VK_FORMAT_B8G8R8A8_SRGB \<and> colorSpace f = VK_COLOR_SPACE_SRGB_NONLINEAR_KHR"

definition chooseSwapSurfaceFormat :: "VkSurfaceFormatKHR list \<Rightarrow> error + VkSurfaceFormatKHR" where
  "chooseSwapSurfaceFormat formats =
     DASSERT (length formats \<noteq> 0)
       (case find preferred_format formats of
          Some f \<Rightarrow> Inr f
        | None \<Rightarrow> Inr (formats ! 0))"

definition chooseSwapPresentMode :: "VkPresentModeKHR list \<Rightarrow> VkPresentModeKHR" where
  "chooseSwapPresentMode present_modes =
     (if find (\<lambda>m. m = VK_PRESENT_MODE_MAILBOX_KHR) present_modes \<noteq> None
      then VK_PRESENT_MODE_MAILBOX_KHR
      else VK_PRESENT_MODE_FIFO_KHR)"

text \<open>
  \<open>std::clamp(v, lo, hi)\<close> returns \<open>lo\<close> if \<open>v < lo\<close>, \<open>hi\<close> if \<open>hi < v\<close>, and \<open>v\<close> otherwise;
  its precondition is that \<open>hi < lo\<close> does not hold, and the behaviour is undefined
  without it.
\<close>

definition std_clamp :: "uint32_t \<Rightarrow> uint32_t \<Rightarrow> uint32_t \<Rightarrow> error + uint32_t" where
  "std_clamp v lo hi =
     (if hi < lo then Inl UndefinedBehaviour
      else Inr (if v < lo then lo else if hi < v then hi else v))"

text \<open>
  \<open>SDL_GL_GetDrawableSize\<close> writes two C \<open>int\<close>s; the pair \<open>drawable\<close> is what it reports
  for the window. \<open>static_cast<uint32_t>\<close> of an \<open>int\<close> is \<open>word_of_int\<close>.
\<close>

definition chooseSwapExtent :: "VkSurfaceCapabilitiesKHR \<Rightarrow> int \<times> int \<Rightarrow> error + VkExtent2D" where
  "chooseSwapExtent caps drawable =
     (if width (currentExtent caps) \<noteq> UINT32_MAX then Inr (currentExtent caps)
      else
        let (w, h) = drawable;
            extent = \<lparr>width = word_of_int w, height = word_of_int h\<rparr>
        in case std_clamp (width extent) (width (minImageExtent caps)) (width (maxImageExtent caps)) of
             Inl e \<Rightarrow> Inl e
           | Inr cw \<Rightarrow>
               (case std_clamp (height extent) (height (minImageExtent caps))
                       (height (maxImageExtent caps)) of
                  Inl e \<Rightarrow> Inl e
                | Inr ch \<Rightarrow> Inr (extent\<lparr>width := cw, height := ch\<rparr>)))"

subsection \<open>Cached results of device selection\<close>

text \<open>
  The queue-family mapping and the swapchain-support snapshot that \<open>isDeviceSuitable\<close>
  caches in the members \<open>q_indices_\<close> and \<open>swapchain_support_\<close>.
\<close>

record QueueFamilyIndices =
  gfx_family :: int
  present_family :: int

definition isComplete :: "QueueFamilyIndices \<Rightarrow> bool" where
  "isComplete indices \<longleftrightarrow> gfx_family indices \<noteq> - 1 \<and> present_family indices \<noteq> - 1"

record SwapchainSupportDetails =
  caps :: VkSurfaceCapabilitiesKHR
  formats :: "VkSurfaceFormatKHR list"
  present_modes :: "VkPresentModeKHR list"

subsection \<open>Device selection\<close>

definition graphics :: "queue_family \<Rightarrow> bool" where
  \<comment> \<open>\<open>q_family.queueFlags & VK_QUEUE_GRAPHICS_BIT\<close> as a condition\<close>
  "graphics q_family \<longleftrightarrow> queueFlags q_family AND VK_QUEUE_GRAPHICS_BIT \<noteq> 0"

definition presents :: "queue_family \<Rightarrow> bool" where
  \<comment> \<open>\<open>present_support\<close> as a condition, after the runtime has written it\<close>
  "presents q_family \<longleftrightarrow> surface_support q_family \<noteq> 0"

text \<open>
  The range-for of \<open>findQueueFamilies\<close>, with the counter \<open>i\<close> and the mapping \<open>indices\<close>
  as it stands before the iteration: both assignments, then the \<open>break\<close> when the mapping
  is complete, then \<open>i++\<close>.
\<close>

fun findQueueFamilies_loop ::
  "queue_family list \<Rightarrow> int \<Rightarrow> QueueFamilyIndices \<Rightarrow> QueueFamilyIndices"
where
  "findQueueFamilies_loop [] i indices = indices"
| "findQueueFamilies_loop (q_family # rest) i indices =
     (let indices = (if graphics q_family then indices\<lparr>gfx_family := i\<rparr> else indices);
          indices = (if presents q_family then indices\<lparr>present_family := i\<rparr> else indices)
      in if isComplete indices then indices
         else findQueueFamilies_loop rest (i + 1) indices)"

definition findQueueFamilies :: "VkPhysicalDevice \<Rightarrow> QueueFamilyIndices" where
  "findQueueFamilies device =
     findQueueFamilies_loop (q_families device) 0 \<lparr>gfx_family = - 1, present_family = - 1\<rparr>"

text \<open>
  The words of the specification for \<open>findQueueFamilies\<close>, to compare the loop with. The
  scan stops as soon as both indices are resolved: the families scanned are the shortest
  prefix that holds a family with graphics support and a family with presentation
  support, or all families when there is no such prefix. The index recorded for a
  capability is the last index, among the families scanned, of a family that has the
  capability, and \<open>-1\<close> when there is none.
\<close>

definition both_resolved :: "queue_family list \<Rightarrow> bool" where
  "both_resolved fams \<longleftrightarrow> (\<exists>q \<in> set fams. graphics q) \<and> (\<exists>q \<in> set fams. presents q)"

definition scanned :: "queue_family list \<Rightarrow> queue_family list" where
  "scanned fams =
     (case find (\<lambda>n. both_resolved (take n fams)) [0..<Suc (length fams)] of
        Some n \<Rightarrow> take n fams
      | None \<Rightarrow> fams)"

definition last_match :: "('a \<Rightarrow> bool) \<Rightarrow> 'a list \<Rightarrow> int" where
  "last_match P xs =
     (case find (\<lambda>i. P (xs ! i)) (rev [0..<length xs]) of
        Some i \<Rightarrow> int i
      | None \<Rightarrow> - 1)"

text \<open>
  The same prefix for a scan that starts with some capability already resolved (\<open>hg\<close>
  for graphics, \<open>hp\<close> for presentation); \<open>scanned\<close> is the case \<open>False\<close>, \<open>False\<close>. It
  describes the loop from any iteration on.
\<close>

definition resolved :: "bool \<Rightarrow> bool \<Rightarrow> queue_family list \<Rightarrow> bool" where
  "resolved hg hp fams \<longleftrightarrow>
     (hg \<or> (\<exists>q \<in> set fams. graphics q)) \<and> (hp \<or> (\<exists>q \<in> set fams. presents q))"

definition scanned_from :: "bool \<Rightarrow> bool \<Rightarrow> queue_family list \<Rightarrow> queue_family list" where
  "scanned_from hg hp fams =
     (case find (\<lambda>n. resolved hg hp (take n fams)) [0..<Suc (length fams)] of
        Some n \<Rightarrow> take n fams
      | None \<Rightarrow> fams)"

definition device_extensions :: "string list" where
  "device_extensions = [VK_KHR_SWAPCHAIN_EXTENSION_NAME]"

text \<open>
  \<open>std::includes\<close> on two sorted ranges, as the standard library walks them: the first
  range advances in every round, the second one when its front element has been matched;
  it fails when the first range is exhausted or has passed the front of the second.
  \<open>std::string\<close> compares bytewise and by length, as the order on \<open>string\<close> does, and
  \<open>std::sort\<close> yields the one sorted arrangement of its input, which is \<open>sort\<close>.
\<close>

fun std_includes :: "'a::linorder list \<Rightarrow> 'a list \<Rightarrow> bool" where
  "std_includes xs [] = True"
| "std_includes [] (y # ys) = False"
| "std_includes (x # xs) (y # ys) =
     (if y < x then False
      else if \<not> x < y then std_includes xs ys
      else std_includes xs (y # ys))"

definition checkDeviceExtensionSupport :: "VkPhysicalDevice \<Rightarrow> bool" where
  "checkDeviceExtensionSupport device =
     (let available_exts = extensions device;
          required_exts = device_extensions;
          required_exts = sort required_exts;
          available_exts = sort available_exts
      in std_includes available_exts required_exts)"

definition querySwapChainSupport :: "VkPhysicalDevice \<Rightarrow> SwapchainSupportDetails" where
  "querySwapChainSupport device =
     \<lparr>caps = surface_caps device,
      formats = surface_formats device,
      present_modes = surface_present_modes device\<rparr>"

text \<open>
  The members of \<open>HelloTriangleApp\<close> that device selection and teardown read or write.
  \<open>physical_device_\<close> is \<open>None\<close> for \<open>VK_NULL_HANDLE\<close>, the value the member is
  initialised with; the handles that the runtime enumerates are never null. Image views
  are named by their handles. A name cannot end in an underscore here, so the members
  carry a prime after it.
\<close>

type_synonym VkImageView = nat

record HelloTriangleApp =
  enable_validation_layers_' :: bool
  physical_device_' :: "VkPhysicalDevice option"
  q_indices_' :: QueueFamilyIndices
  swapchain_support_' :: SwapchainSupportDetails
  swapchain_views_' :: "VkImageView list"

text \<open>
  \<open>isDeviceSuitable\<close> returns its verdict and, since it caches the mapping and the
  snapshot of a suitable device in the members, the application afterwards.
\<close>

definition isDeviceSuitable :: "VkPhysicalDevice \<Rightarrow> HelloTriangleApp \<Rightarrow> bool \<times> HelloTriangleApp" where
  "isDeviceSuitable device app =
     (let indices = findQueueFamilies device
      in if \<not> isComplete indices then (False, app)
         else if \<not> checkDeviceExtensionSupport device then (False, app)
         else
           let swapchain_support = querySwapChainSupport device
           in if formats swapchain_support = [] \<or> present_modes swapchain_support = []
              then (False, app)
              else (True, app\<lparr>q_indices_' := indices, swapchain_support_' := swapchain_support\<rparr>))"

fun pickPhysicalDevice_loop :: "VkPhysicalDevice list \<Rightarrow> HelloTriangleApp \<Rightarrow> HelloTriangleApp" where
  "pickPhysicalDevice_loop [] app = app"
| "pickPhysicalDevice_loop (device # devices) app =
     (case isDeviceSuitable device app of
        (True, app') \<Rightarrow> app'\<lparr>physical_device_' := Some device\<rparr>
      | (False, app') \<Rightarrow> pickPhysicalDevice_loop devices app')"

text \<open>
  \<open>pickPhysicalDevice\<close>, with \<open>devices\<close> the handles that \<open>vkEnumeratePhysicalDevices\<close>
  reports, in its order.
\<close>

definition pickPhysicalDevice :: "VkPhysicalDevice list \<Rightarrow> HelloTriangleApp \<Rightarrow> error + HelloTriangleApp" where
  "pickPhysicalDevice devices app =
     ASSERT (length devices > 0)
       (let app' = pickPhysicalDevice_loop devices app
        in ASSERT (physical_device_' app' \<noteq> None) (Inr app'))"

subsection \<open>Swapchain creation\<close>

text \<open>
  The fields of \<open>VkSwapchainCreateInfoKHR\<close> that \<open>createSwapChain\<close> computes; \<open>sType\<close>,
  the handles \<open>surface\<close> and \<open>oldSwapchain\<close> and the usage and alpha flags are constants
  and left out. The field \<open>minImageCount\<close> is written \<open>ci_minImageCount\<close>, since the
  capabilities record has a field of that name. \<open>pQueueFamilyIndices\<close> is \<open>None\<close> for
  \<open>nullptr\<close> and \<open>Some a\<close> for a pointer to the array \<open>a\<close>.
\<close>

record VkSwapchainCreateInfoKHR =
  ci_minImageCount :: uint32_t
  imageFormat :: VkFormat
  imageColorSpace :: VkColorSpaceKHR
  imageExtent :: VkExtent2D
  imageArrayLayers :: uint32_t
  preTransform :: uint32_t
  presentMode :: VkPresentModeKHR
  clipped :: VkBool32
  imageSharingMode :: VkSharingMode
  queueFamilyIndexCount :: uint32_t
  pQueueFamilyIndices :: "uint32_t list option"

definition image_count :: "VkSurfaceCapabilitiesKHR \<Rightarrow> uint32_t" where
  \<comment> \<open>the local \<open>image_count\<close> of \<open>createSwapChain\<close> when the create info is filled\<close>
  "image_count c =
     (let image_count = minImageCount c + 1
      in if maxImageCount c > 0 then min image_count (maxImageCount c) else image_count)"

text \<open>
  \<open>createSwapChain\<close> up to the call of \<open>vkCreateSwapchainKHR\<close>: the create info it passes
  to the runtime, from the cached snapshot \<open>swapchain_support_\<close>, the cached queue-family
  mapping \<open>q_indices_\<close> and the drawable size of the window.
\<close>

definition createSwapChain_ci ::
  "HelloTriangleApp \<Rightarrow> int \<times> int \<Rightarrow> error + VkSwapchainCreateInfoKHR"
where
  "createSwapChain_ci app drawable =
     (case chooseSwapSurfaceFormat (formats (swapchain_support_' app)) of
        Inl e \<Rightarrow> Inl e
      | Inr fmt \<Rightarrow>
          let present_mode = chooseSwapPresentMode (present_modes (swapchain_support_' app))
          in case chooseSwapExtent (caps (swapchain_support_' app)) drawable of
               Inl e \<Rightarrow> Inl e
             | Inr extent \<Rightarrow>
                 let queue_family_indices =
                       [word_of_int (gfx_family (q_indices_' app)),
                        word_of_int (present_family (q_indices_' app))];
                     swapchain_ci =
                       \<lparr>ci_minImageCount = image_count (caps (swapchain_support_' app)),
                        imageFormat = format fmt,
                        imageColorSpace = colorSpace fmt,
                        imageExtent = extent,
                        imageArrayLayers = 1,
                        preTransform = currentTransform (caps (swapchain_support_' app)),
                        presentMode = present_mode,
                        clipped = 1,
                        imageSharingMode = VK_SHARING_MODE_EXCLUSIVE,
                        queueFamilyIndexCount = 0,
                        pQueueFamilyIndices = None\<rparr>
                 in if gfx_family (q_indices_' app) \<noteq> present_family (q_indices_' app)
                    then Inr (swapchain_ci
                           \<lparr>imageSharingMode := VK_SHARING_MODE_CONCURRENT,
                            queueFamilyIndexCount := 2,
                            pQueueFamilyIndices := Some queue_family_indices\<rparr>)
                    else Inr (swapchain_ci
                           \<lparr>imageSharingMode := VK_SHARING_MODE_EXCLUSIVE,
                            queueFamilyIndexCount := 0,
                            pQueueFamilyIndices := None\<rparr>))"

text \<open>
  \<open>chooseSwapExtent\<close> has a result for these capabilities: it returns the current extent,
  or calls \<open>std::clamp\<close> within its precondition.
\<close>

definition extent_defined :: "VkSurfaceCapabilitiesKHR \<Rightarrow> bool" where
  "extent_defined c \<longleftrightarrow>
     width (currentExtent c) \<noteq> UINT32_MAX
     \<or> (width (minImageExtent c) \<le> width (maxImageExtent c)
        \<and> height (minImageExtent c) \<le> height (maxImageExtent c))"

subsection \<open>Instance extensions\<close>

text \<open>
  \<open>getRequiredExtensions\<close>. The parameter \<open>sdl\<close> is the answer of
  \<open>SDL_Vulkan_GetInstanceExtensions\<close> for the window system: \<open>None\<close> when the query
  returns \<open>SDL_FALSE\<close>, \<open>Some names\<close> when it succeeds, with the names that the second
  call writes into the vector. \<open>apple\<close> is the preprocessor condition \<open>__APPLE__\<close>, and
  \<open>enable_validation_layers\<close> the member \<open>enable_validation_layers_\<close>, which the build
  sets to whether \<open>DEBUG\<close> is defined. Each \<open>const char*\<close> is modelled by the name it
  points to.
\<close>

definition getRequiredExtensions :: "bool \<Rightarrow> bool \<Rightarrow> string list option \<Rightarrow> error + string list" where
  "getRequiredExtensions apple enable_validation_layers sdl =
     ASSERT (sdl \<noteq> None)
       (ASSERT (sdl \<noteq> None)
          (let ext_names = the sdl;
               ext_names = (if apple
                            then ext_names @ [VK_KHR_PORTABILITY_ENUMERATION_EXTENSION_NAME]
                            else ext_names);
               ext_names = (if enable_validation_layers
                            then ext_names @ [VK_EXT_DEBUG_UTILS_EXTENSION_NAME]
                            else ext_names)
           in Inr ext_names))"

subsection \<open>Creation and teardown\<close>

text \<open>
  The objects the application owns. \<open>run\<close> calls \<open>initWindow\<close>, then \<open>initVulkan\<close>, and
  after the main loop \<open>cleanup\<close>. The two lists below are the objects that a run in which
  no call fails creates, in the order of the creating calls: \<open>SDL_Init\<close> and
  \<open>SDL_CreateWindow\<close> in \<open>initWindow\<close>; in \<open>initVulkan\<close> the instance (\<open>createInstance\<close>),
  the messenger if validation layers are enabled (\<open>setupDebugMessenger\<close>), the surface
  (\<open>createSurface\<close>), nothing in \<open>pickPhysicalDevice\<close>, the device
  (\<open>createLogicalDevice\<close>), the swapchain (\<open>createSwapChain\<close>) and one image view per
  swapchain image, by ascending index (\<open>createImageViews\<close>); \<open>views\<close> are the handles that
  end up in \<open>swapchain_views_\<close>.
\<close>

datatype object =
  WindowingSubsystem | Window | Instance | DebugMessenger | Surface | Device | Swapchain
  | ImageView VkImageView

definition initWindow_creates :: "object list" where
  "initWindow_creates = [WindowingSubsystem, Window]"

definition initVulkan_creates :: "bool \<Rightarrow> VkImageView list \<Rightarrow> object list" where
  "initVulkan_creates enable_validation_layers views =
     [Instance]
     @ (if enable_validation_layers then [DebugMessenger] else [])
     @ [Surface]
     @ [Device]
     @ [Swapchain]
     @ map ImageView views"

definition creation_order :: "bool \<Rightarrow> VkImageView list \<Rightarrow> object list" where
  "creation_order enable_validation_layers views =
     initWindow_creates @ initVulkan_creates enable_validation_layers views"

text \<open>
  \<open>cleanup\<close> returns the objects it destroys, in the order of the destroying calls, when
  it runs to its end. \<open>vkGetInstanceProcAddr name\<close> tells whether the runtime has a
  function of that name, that is, whether \<open>LOAD_VK_FN\<close> yields a non-null pointer; the
  \<open>ASSERT\<close> on the pointer is reached only with validation layers enabled.
\<close>

definition cleanup :: "(string \<Rightarrow> bool) \<Rightarrow> HelloTriangleApp \<Rightarrow> error + object list" where
  "cleanup vkGetInstanceProcAddr app =
     (let destroyed = map ImageView (swapchain_views_' app);
          destroyed = destroyed @ [Swapchain];
          destroyed = destroyed @ [Device]
      in if enable_validation_layers_' app
         then
           let destroy_dbg_fn = vkGetInstanceProcAddr ''vkDestroyDebugUtilsMessengerEXT''
           in ASSERT destroy_dbg_fn
                (Inr (destroyed @ [DebugMessenger]
                        @ [Surface, Instance, Window, WindowingSubsystem]))
         else Inr (destroyed @ [Surface, Instance, Window, WindowingSubsystem]))"

subsection \<open>Example inputs\<close>

definition half_sentinel_caps :: VkSurfaceCapabilitiesKHR where
  \<comment> \<open>only the width of the current extent is \<open>0xFFFFFFFF\<close>\<close>
  "half_sentinel_caps =
     \<lparr>minImageCount = 2, maxImageCount = 0,
      currentExtent = \<lparr>width = UINT32_MAX, height = 600\<rparr>,
      minImageExtent = \<lparr>width = 1, height = 1\<rparr>,
      maxImageExtent = \<lparr>width = 4096, height = 4096\<rparr>,
      currentTransform = 1\<rparr>"

definition any_extent_caps :: VkSurfaceCapabilitiesKHR where
  \<comment> \<open>the current extent is the special value \<open>(0xFFFFFFFF, 0xFFFFFFFF)\<close>\<close>
  "any_extent_caps =
     \<lparr>minImageCount = 2, maxImageCount = 2,
      currentExtent = \<lparr>width = UINT32_MAX, height = UINT32_MAX\<rparr>,
      minImageExtent = \<lparr>width = 640, height = 480\<rparr>,
      maxImageExtent = \<lparr>width = 1024, height = 768\<rparr>,
      currentTransform = 1\<rparr>"

definition fixed_extent_caps :: VkSurfaceCapabilitiesKHR where
  "fixed_extent_caps =
     \<lparr>minImageCount = 2, maxImageCount = 0,
      currentExtent = \<lparr>width = 800, height = UINT32_MAX\<rparr>,
      minImageExtent = \<lparr>width = 1, height = 1\<rparr>,
      maxImageExtent = \<lparr>width = 4096, height = 4096\<rparr>,
      currentTransform = 1\<rparr>"

definition example_support :: SwapchainSupportDetails where
  "example_support =
     \<lparr>caps = any_extent_caps,
      formats = [\<lparr>format = 44, colorSpace = 0\<rparr>,
                 \<lparr>format = VK_FORMAT_B8G8R8A8_SRGB,
                    colorSpace = VK_COLOR_SPACE_SRGB_NONLINEAR_KHR\<rparr>],
      present_modes = [VK_PRESENT_MODE_FIFO_KHR, VK_PRESENT_MODE_MAILBOX_KHR]\<rparr>"

definition gfx_only :: queue_family where
  "gfx_only = \<lparr>queueFlags = 1, surface_support = 0\<rparr>"

definition present_only :: queue_family where
  "present_only = \<lparr>queueFlags = 4, surface_support = 1\<rparr>"

definition compute_only :: queue_family where
  "compute_only = \<lparr>queueFlags = 2, surface_support = 0\<rparr>"

definition example_formats :: "VkSurfaceFormatKHR list" where
  "example_formats = [\<lparr>format = 44, colorSpace = 0\<rparr>]"

definition no_graphics_device :: VkPhysicalDevice where
  "no_graphics_device =
     \<lparr>q_families = [present_only, compute_only],
      extensions = [''VK_KHR_swapchain''],
      surface_caps = any_extent_caps,
      surface_formats = example_formats,
      surface_present_modes = [VK_PRESENT_MODE_FIFO_KHR]\<rparr>"

definition no_swapchain_device :: VkPhysicalDevice where
  \<comment> \<open>the extension name differs from the required one in the case of one letter\<close>
  "no_swapchain_device =
     \<lparr>q_families = [gfx_only, present_only],
      extensions = [''VK_KHR_maintenance1'', ''VK_KHR_Swapchain''],
      surface_caps = any_extent_caps,
      surface_formats = example_formats,
      surface_present_modes = [VK_PRESENT_MODE_FIFO_KHR]\<rparr>"

definition no_present_modes_device :: VkPhysicalDevice where
  "no_present_modes_device =
     \<lparr>q_families = [gfx_only, present_only],
      extensions = [''VK_KHR_swapchain''],
      surface_caps = any_extent_caps,
      surface_formats = example_formats,
      surface_present_modes = []\<rparr>"

definition suitable_device :: VkPhysicalDevice where
  "suitable_device =
     \<lparr>q_families = [gfx_only, present_only],
      extensions = [''VK_KHR_swapchain'', ''VK_KHR_maintenance1''],
      surface_caps = any_extent_caps,
      surface_formats = example_formats,
      surface_present_modes = [VK_PRESENT_MODE_FIFO_KHR]\<rparr>"

definition other_suitable_device :: VkPhysicalDevice where
  "other_suitable_device =
     \<lparr>q_families = [compute_only, gfx_only, present_only],
      extensions = [''VK_KHR_swapchain''],
      surface_caps = fixed_extent_caps,
      surface_formats = example_formats,
      surface_present_modes = [VK_PRESENT_MODE_MAILBOX_KHR]\<rparr>"

definition fresh_app :: HelloTriangleApp where
  "fresh_app =
     \<lparr>enable_validation_layers_' = False,
      physical_device_' = None,
      q_indices_' = \<lparr>gfx_family = - 1, present_family = - 1\<rparr>,
      swapchain_support_' = \<lparr>caps = any_extent_caps, formats = [], present_modes = []\<rparr>,
      swapchain_views_' = []\<rparr>"

definition debug_app :: HelloTriangleApp where
  \<comment> \<open>a debug build after initialisation, with one swapchain image view\<close>
  "debug_app =
     \<lparr>enable_validation_layers_' = True,
      physical_device_' = Some suitable_device,
      q_indices_' = \<lparr>gfx_family = 0, present_family = 1\<rparr>,
      swapchain_support_' = example_support,
      swapchain_views_' = [7]\<rparr>"

definition release_app :: HelloTriangleApp where
  \<comment> \<open>a release build after initialisation, with three swapchain image views\<close>
  "release_app =
     \<lparr>enable_validation_layers_' = False,
      physical_device_' = Some suitable_device,
      q_indices_' = \<lparr>gfx_family = 0, present_family = 1\<rparr>,
      swapchain_support_' = example_support,
      swapchain_views_' = [7, 8, 9]\<rparr>"

section \<open>Properties\<close>

text \<open>
  C2. On every non-empty list of surface formats, \<open>chooseSwapSurfaceFormat\<close> returns the
  B8G8R8A8_SRGB / SRGB-nonlinear pair if that pair occurs anywhere in the list, and the
  first element of the list otherwise.
\<close>

theorem chooseSwapSurfaceFormat_preferred_or_first:
  "chooseSwapSurfaceFormat (f # fs) =
     Inr (if \<lparr>format = VK_FORMAT_B8G8R8A8_SRGB, colorSpace = VK_COLOR_SPACE_SRGB_NONLINEAR_KHR\<rparr>
               \<in> set (f # fs)
          then \<lparr>format = VK_FORMAT_B8G8R8A8_SRGB, colorSpace = VK_COLOR_SPACE_SRGB_NONLINEAR_KHR\<rparr>
          else f)"
proof (cases "find preferred_format (f # fs)")
  case None
  then have "\<forall>g \<in> set (f # fs). \<not> preferred_format g"
    by (simp only: find_None_iff) blast
  then have "\<lparr>format = VK_FORMAT_B8G8R8A8_SRGB, colorSpace = VK_COLOR_SPACE_SRGB_NONLINEAR_KHR\<rparr>
               \<notin> set (f # fs)"
    by (auto simp: preferred_format_def)
  with None show ?thesis
    by (simp add: chooseSwapSurfaceFormat_def DASSERT_def)
next
  case (Some g)
  then obtain i where "i < length (f # fs)" and "preferred_format ((f # fs) ! i)"
      and "g = (f # fs) ! i"
    unfolding find_Some_iff by blast
  then have "g \<in> set (f # fs)" and "preferred_format g"
    using nth_mem by blast+
  moreover from \<open>preferred_format g\<close>
  have "g = \<lparr>format = VK_FORMAT_B8G8R8A8_SRGB, colorSpace = VK_COLOR_SPACE_SRGB_NONLINEAR_KHR\<rparr>"
    by (simp add: preferred_format_def)
  ultimately show ?thesis using Some
    by (simp add: chooseSwapSurfaceFormat_def DASSERT_def)
qed


subsection \<open>Extent\<close>

lemma std_clamp_in_range:
  "lo \<le> hi \<Longrightarrow> std_clamp v lo hi = Inr (max lo (min hi v))"
  by (auto simp: std_clamp_def max_def min_def)

lemma chooseSwapExtent_verbatim:
  "width (currentExtent c) \<noteq> UINT32_MAX \<Longrightarrow> chooseSwapExtent c d = Inr (currentExtent c)"
  by (simp add: chooseSwapExtent_def)

lemma chooseSwapExtent_derived:
  assumes "width (currentExtent c) = UINT32_MAX"
    and "width (minImageExtent c) \<le> width (maxImageExtent c)"
    and "height (minImageExtent c) \<le> height (maxImageExtent c)"
  shows "chooseSwapExtent c (W, H) =
     Inr \<lparr>width = max (width (minImageExtent c)) (min (width (maxImageExtent c)) (word_of_int W)),
          height = max (height (minImageExtent c)) (min (height (maxImageExtent c)) (word_of_int H))\<rparr>"
  using assms by (simp add: chooseSwapExtent_def std_clamp_in_range)

text \<open>
  C3 (as stated). The claim takes the current extent as a whole to be, or not to be, the
  "any extent" value \<open>(0xFFFFFFFF, 0xFFFFFFFF)\<close>. The record \<open>half_sentinel_caps\<close> has the
  current extent \<open>(0xFFFFFFFF, 600)\<close>, which is not that value, and still
  \<open>chooseSwapExtent\<close> does not return it: with a drawable size of 800 x 500 the result is
  (800, 500).
\<close>

theorem chooseSwapExtent_half_sentinel_counterexample:
  "currentExtent half_sentinel_caps \<noteq> \<lparr>width = UINT32_MAX, height = UINT32_MAX\<rparr>
   \<and> chooseSwapExtent half_sentinel_caps (800, 500) = Inr \<lparr>width = 800, height = 500\<rparr>
   \<and> chooseSwapExtent half_sentinel_caps (800, 500) \<noteq> Inr (currentExtent half_sentinel_caps)"
  by (simp add: half_sentinel_caps_def chooseSwapExtent_def std_clamp_def UINT32_MAX_def)

text \<open>
  C3 (amended). The branch is chosen by the width of the current extent alone. For every
  capabilities record whose current-extent width is \<open>0xFFFFFFFF\<close> and whose minimum extent
  is at most its maximum extent on each axis (the precondition of \<open>std::clamp\<close>), and every
  drawable size \<open>(W, H)\<close>, \<open>chooseSwapExtent\<close> returns \<open>W\<close> and \<open>H\<close>, converted to
  \<open>uint32_t\<close>, clamped per axis into the bounds; for a drawable size within
  \<open>0 .. 2^32 - 1\<close> that is the numeric clamp of \<open>W\<close> and \<open>H\<close>. For every record whose
  current-extent width is not \<open>0xFFFFFFFF\<close> it returns the current extent verbatim,
  whatever the drawable size.
\<close>

theorem chooseSwapExtent_by_width:
  "(width (currentExtent c) = UINT32_MAX \<longrightarrow>
      width (minImageExtent c) \<le> width (maxImageExtent c) \<longrightarrow>
      height (minImageExtent c) \<le> height (maxImageExtent c) \<longrightarrow>
        (\<exists>e. chooseSwapExtent c (W, H) = Inr e
           \<and> width e = max (width (minImageExtent c))
                           (min (width (maxImageExtent c)) (word_of_int W))
           \<and> height e = max (height (minImageExtent c))
                            (min (height (maxImageExtent c)) (word_of_int H))
           \<and> (0 \<le> W \<and> W < 2 ^ 32 \<longrightarrow>
                uint (width e) = max (uint (width (minImageExtent c)))
                                     (min (uint (width (maxImageExtent c))) W))
           \<and> (0 \<le> H \<and> H < 2 ^ 32 \<longrightarrow>
                uint (height e) = max (uint (height (minImageExtent c)))
                                      (min (uint (height (maxImageExtent c))) H))))
   \<and> (width (currentExtent c) \<noteq> UINT32_MAX \<longrightarrow>
        chooseSwapExtent c (W, H) = Inr (currentExtent c))"
proof (intro conjI impI)
  assume sentinel: "width (currentExtent c) = UINT32_MAX"
    and w: "width (minImageExtent c) \<le> width (maxImageExtent c)"
    and h: "height (minImageExtent c) \<le> height (maxImageExtent c)"
  have cast: "uint (word_of_int n :: uint32_t) = n" if "0 \<le> n" and "n < 2 ^ 32" for n
    using that by (simp add: uint_word_of_int take_bit_int_eq_self)
  have num: "uint (max lo (min hi v)) = max (uint lo) (min (uint hi) (uint v))"
    for lo hi v :: uint32_t
    by (simp add: max_def min_def word_le_def)
  show "\<exists>e. chooseSwapExtent c (W, H) = Inr e
           \<and> width e = max (width (minImageExtent c))
                           (min (width (maxImageExtent c)) (word_of_int W))
           \<and> height e = max (height (minImageExtent c))
                            (min (height (maxImageExtent c)) (word_of_int H))
           \<and> (0 \<le> W \<and> W < 2 ^ 32 \<longrightarrow>
                uint (width e) = max (uint (width (minImageExtent c)))
                                     (min (uint (width (maxImageExtent c))) W))
           \<and> (0 \<le> H \<and> H < 2 ^ 32 \<longrightarrow>
                uint (height e) = max (uint (height (minImageExtent c)))
                                      (min (uint (height (maxImageExtent c))) H))"
    unfolding chooseSwapExtent_derived [OF sentinel w h]
    by (simp add: num cast)
next
  assume "width (currentExtent c) \<noteq> UINT32_MAX"
  then show "chooseSwapExtent c (W, H) = Inr (currentExtent c)"
    by (rule chooseSwapExtent_verbatim)
qed

theorem chooseSwapExtent_by_width_witness:
  "chooseSwapExtent any_extent_caps (2000, 100) = Inr \<lparr>width = 1024, height = 480\<rparr>
   \<and> chooseSwapExtent fixed_extent_caps (2000, 100) = Inr \<lparr>width = 800, height = UINT32_MAX\<rparr>"
proof -
  have a: "width (currentExtent any_extent_caps) = UINT32_MAX"
    and b: "width (minImageExtent any_extent_caps) \<le> width (maxImageExtent any_extent_caps)"
    and c: "height (minImageExtent any_extent_caps) \<le> height (maxImageExtent any_extent_caps)"
    by (simp_all add: any_extent_caps_def)
  have d: "width (currentExtent fixed_extent_caps) \<noteq> UINT32_MAX"
    by (simp add: fixed_extent_caps_def UINT32_MAX_def)
  from chooseSwapExtent_by_width [of any_extent_caps 2000 100] a b c
  obtain e where "chooseSwapExtent any_extent_caps (2000, 100) = Inr e"
    and "width e = max (width (minImageExtent any_extent_caps))
                       (min (width (maxImageExtent any_extent_caps)) (word_of_int 2000))"
    and "height e = max (height (minImageExtent any_extent_caps))
                        (min (height (maxImageExtent any_extent_caps)) (word_of_int 100))"
    by blast
  then have "chooseSwapExtent any_extent_caps (2000, 100) = Inr \<lparr>width = 1024, height = 480\<rparr>"
    by (simp add: any_extent_caps_def)
  moreover from chooseSwapExtent_by_width [of fixed_extent_caps 2000 100] d
  have "chooseSwapExtent fixed_extent_caps (2000, 100) = Inr \<lparr>width = 800, height = UINT32_MAX\<rparr>"
    by (simp add: fixed_extent_caps_def)
  ultimately show ?thesis by simp
qed

text \<open>
  C10. \<open>chooseSwapExtent\<close> looks at the width of the current extent only: whenever that
  width is not \<open>0xFFFFFFFF\<close> the whole current extent is returned, also with a height of
  \<open>0xFFFFFFFF\<close>; and when the width is \<open>0xFFFFFFFF\<close> the result is the same whatever the
  height of the current extent is.
\<close>

theorem chooseSwapExtent_inspects_width_only:
  "(width (currentExtent c) \<noteq> UINT32_MAX \<longrightarrow>
      chooseSwapExtent c d = Inr (currentExtent c))
   \<and> (w \<noteq> UINT32_MAX \<longrightarrow>
        chooseSwapExtent (c\<lparr>currentExtent := \<lparr>width = w, height = UINT32_MAX\<rparr>\<rparr>) d
          = Inr \<lparr>width = w, height = UINT32_MAX\<rparr>)
   \<and> chooseSwapExtent (c\<lparr>currentExtent := \<lparr>width = UINT32_MAX, height = h1\<rparr>\<rparr>) d
       = chooseSwapExtent (c\<lparr>currentExtent := \<lparr>width = UINT32_MAX, height = h2\<rparr>\<rparr>) d"
  by (simp add: chooseSwapExtent_def Let_def split: prod.splits sum.splits)

theorem chooseSwapExtent_inspects_width_only_witness:
  "width (currentExtent fixed_extent_caps) \<noteq> UINT32_MAX
   \<and> height (currentExtent fixed_extent_caps) = UINT32_MAX
   \<and> chooseSwapExtent fixed_extent_caps (1, 1) = Inr \<lparr>width = 800, height = UINT32_MAX\<rparr>
   \<and> chooseSwapExtent (fixed_extent_caps\<lparr>currentExtent := \<lparr>width = 5, height = UINT32_MAX\<rparr>\<rparr>) (1, 1)
       = Inr \<lparr>width = 5, height = UINT32_MAX\<rparr>"
proof -
  have a: "width (currentExtent fixed_extent_caps) \<noteq> UINT32_MAX"
    and b: "(5 :: uint32_t) \<noteq> UINT32_MAX"
    by (simp_all add: fixed_extent_caps_def UINT32_MAX_def)
  show ?thesis
    using a b chooseSwapExtent_inspects_width_only [of fixed_extent_caps "(1, 1)" 5]
    by (simp add: fixed_extent_caps_def)
qed

subsection \<open>Present mode\<close>

text \<open>
  C6. \<open>chooseSwapPresentMode\<close> returns the mailbox mode if it occurs anywhere in the list of
  present modes and the FIFO mode otherwise; this holds for every list, so for every
  non-empty one.
\<close>

theorem chooseSwapPresentMode_mailbox_or_fifo:
  "chooseSwapPresentMode modes =
     (if VK_PRESENT_MODE_MAILBOX_KHR \<in> set modes
      then VK_PRESENT_MODE_MAILBOX_KHR else VK_PRESENT_MODE_FIFO_KHR)"
proof -
  have "find (\<lambda>m. m = VK_PRESENT_MODE_MAILBOX_KHR) modes \<noteq> None
          \<longleftrightarrow> VK_PRESENT_MODE_MAILBOX_KHR \<in> set modes"
    by (simp only: find_None_iff) blast
  then show ?thesis
    by (simp only: chooseSwapPresentMode_def)
qed


subsection \<open>Swapchain create info\<close>

lemma chooseSwapSurfaceFormat_returns:
  "fs \<noteq> [] \<Longrightarrow> \<exists>f. chooseSwapSurfaceFormat fs = Inr f"
  by (simp add: chooseSwapSurfaceFormat_def DASSERT_def split: option.splits)

lemma chooseSwapExtent_returns:
  "extent_defined c \<Longrightarrow> \<exists>e. chooseSwapExtent c d = Inr e"
proof (cases "width (currentExtent c) = UINT32_MAX")
  case True
  assume "extent_defined c"
  with True chooseSwapExtent_derived [of c "fst d" "snd d"] show ?thesis
    by (simp add: extent_defined_def)
next
  case False
  then show ?thesis by (simp add: chooseSwapExtent_verbatim)
qed

lemma createSwapChain_ci_returns:
  assumes "formats (swapchain_support_' app) \<noteq> []"
    and "extent_defined (caps (swapchain_support_' app))"
  shows "\<exists>ci. createSwapChain_ci app d = Inr ci"
proof -
  from assms(1) obtain f
    where f: "chooseSwapSurfaceFormat (formats (swapchain_support_' app)) = Inr f"
    using chooseSwapSurfaceFormat_returns by blast
  from assms(2) obtain e where e: "chooseSwapExtent (caps (swapchain_support_' app)) d = Inr e"
    using chooseSwapExtent_returns by blast
  show ?thesis
    by (simp add: createSwapChain_ci_def f e Let_def)
qed

lemma createSwapChain_ci_fields:
  assumes "createSwapChain_ci app d = Inr ci"
  shows "ci_minImageCount ci = image_count (caps (swapchain_support_' app))"
    and "gfx_family (q_indices_' app) \<noteq> present_family (q_indices_' app) \<Longrightarrow>
           imageSharingMode ci = VK_SHARING_MODE_CONCURRENT
           \<and> queueFamilyIndexCount ci = 2
           \<and> pQueueFamilyIndices ci
               = Some [word_of_int (gfx_family (q_indices_' app)),
                       word_of_int (present_family (q_indices_' app))]"
    and "gfx_family (q_indices_' app) = present_family (q_indices_' app) \<Longrightarrow>
           imageSharingMode ci = VK_SHARING_MODE_EXCLUSIVE
           \<and> queueFamilyIndexCount ci = 0
           \<and> pQueueFamilyIndices ci = None"
  using assms
  by (auto simp: createSwapChain_ci_def Let_def split: sum.splits if_splits)

text \<open>
  C7. The image count requested in the create info is \<open>min_image_count + 1\<close> when
  \<open>max_image_count\<close> is zero and the smaller of \<open>min_image_count + 1\<close> and
  \<open>max_image_count\<close> when it is not; min 2, max 0 give 3 and min 2, max 2 give 2. The
  addition is the one of \<open>uint32_t\<close>: it is the numeric successor unless
  \<open>min_image_count\<close> is \<open>0xFFFFFFFF\<close>. Whenever the snapshot has a format and the extent
  is defined, \<open>createSwapChain\<close> builds a create info, and its \<open>minImageCount\<close> is this
  count.
\<close>

theorem image_count_min_plus_one_clamped:
  "image_count c =
     (if maxImageCount c = 0 then minImageCount c + 1
      else min (minImageCount c + 1) (maxImageCount c))
   \<and> (minImageCount c \<noteq> UINT32_MAX \<longrightarrow>
        unat (minImageCount c + 1) = unat (minImageCount c) + 1)
   \<and> image_count (c\<lparr>minImageCount := 2, maxImageCount := 0\<rparr>) = 3
   \<and> image_count (c\<lparr>minImageCount := 2, maxImageCount := 2\<rparr>) = 2
   \<and> (formats (swapchain_support_' app) \<noteq> []
        \<and> extent_defined (caps (swapchain_support_' app)) \<longrightarrow>
        (\<exists>ci. createSwapChain_ci app d = Inr ci
           \<and> ci_minImageCount ci = image_count (caps (swapchain_support_' app))))"
proof (intro conjI impI)
  show eq: "image_count c =
     (if maxImageCount c = 0 then minImageCount c + 1
      else min (minImageCount c + 1) (maxImageCount c))"
    by (simp add: image_count_def Let_def word_greater_zero_iff)
  show "unat (minImageCount c + 1) = unat (minImageCount c) + 1"
    if "minImageCount c \<noteq> UINT32_MAX"
  proof -
    from that have "1 + minImageCount c \<noteq> 0"
      by (metis UINT32_MAX_def add.commute add_eq_0_iff)
    then have "unat (1 + minImageCount c) = Suc (unat (minImageCount c))"
      by (rule unatSuc)
    then show ?thesis
      by (simp add: add.commute)
  qed
  show "image_count (c\<lparr>minImageCount := 2, maxImageCount := 0\<rparr>) = 3"
    by (simp add: image_count_def)
  show "image_count (c\<lparr>minImageCount := 2, maxImageCount := 2\<rparr>) = 2"
    by (simp add: image_count_def)
  show "\<exists>ci. createSwapChain_ci app d = Inr ci
           \<and> ci_minImageCount ci = image_count (caps (swapchain_support_' app))"
    if "formats (swapchain_support_' app) \<noteq> []
        \<and> extent_defined (caps (swapchain_support_' app))"
    using that createSwapChain_ci_returns [of app d] createSwapChain_ci_fields(1) [of app d]
    by blast
qed

theorem image_count_min_plus_one_clamped_witness:
  "image_count any_extent_caps = 2
   \<and> unat (minImageCount any_extent_caps + 1) = 3
   \<and> (\<exists>ci. createSwapChain_ci debug_app (800, 600) = Inr ci \<and> ci_minImageCount ci = 2)"
proof -
  have a: "minImageCount any_extent_caps \<noteq> UINT32_MAX"
    by (simp add: any_extent_caps_def UINT32_MAX_def)
  have b: "formats (swapchain_support_' debug_app) \<noteq> []
        \<and> extent_defined (caps (swapchain_support_' debug_app))"
    by (simp add: debug_app_def example_support_def any_extent_caps_def extent_defined_def)
  have c: "maxImageCount any_extent_caps \<noteq> 0" "minImageCount any_extent_caps = 2"
    "maxImageCount any_extent_caps = 2" "caps (swapchain_support_' debug_app) = any_extent_caps"
    by (simp_all add: any_extent_caps_def example_support_def debug_app_def)
  show ?thesis
    using a b image_count_min_plus_one_clamped [of any_extent_caps debug_app "(800, 600)"]
    by (auto simp: c)
qed

text \<open>
  C4. Whenever \<open>createSwapChain\<close> builds a create info (it does for every snapshot with a
  format and a defined extent), the create info declares concurrent sharing with a family
  index count of 2 over the array \<open>[graphics_family, present_family]\<close>, in that order and
  converted to \<open>uint32_t\<close>, when the two cached indices differ, and exclusive sharing
  with a count of 0 and a null index pointer when they are equal. For indices within
  \<open>0 .. 2^32 - 1\<close> the conversion keeps their values.
\<close>

theorem createSwapChain_sharing_mode:
  assumes "formats (swapchain_support_' app) \<noteq> []"
    and "extent_defined (caps (swapchain_support_' app))"
  shows "\<exists>ci. createSwapChain_ci app d = Inr ci
     \<and> (gfx_family (q_indices_' app) \<noteq> present_family (q_indices_' app) \<longrightarrow>
          imageSharingMode ci = VK_SHARING_MODE_CONCURRENT
          \<and> queueFamilyIndexCount ci = 2
          \<and> pQueueFamilyIndices ci
              = Some [word_of_int (gfx_family (q_indices_' app)),
                      word_of_int (present_family (q_indices_' app))]
          \<and> (0 \<le> gfx_family (q_indices_' app) \<and> gfx_family (q_indices_' app) < 2 ^ 32
               \<and> 0 \<le> present_family (q_indices_' app)
               \<and> present_family (q_indices_' app) < 2 ^ 32 \<longrightarrow>
                map_option (map uint) (pQueueFamilyIndices ci)
                  = Some [gfx_family (q_indices_' app), present_family (q_indices_' app)]))
     \<and> (gfx_family (q_indices_' app) = present_family (q_indices_' app) \<longrightarrow>
          imageSharingMode ci = VK_SHARING_MODE_EXCLUSIVE
          \<and> queueFamilyIndexCount ci = 0
          \<and> pQueueFamilyIndices ci = None)"
proof -
  from assms obtain ci where ci: "createSwapChain_ci app d = Inr ci"
    using createSwapChain_ci_returns by blast
  have cast: "uint (word_of_int n :: uint32_t) = n" if "0 \<le> n" and "n < 2 ^ 32" for n
    using that by (simp add: uint_word_of_int take_bit_int_eq_self)
  from createSwapChain_ci_fields(2) [OF ci] createSwapChain_ci_fields(3) [OF ci] ci
  show ?thesis
    by (auto simp: cast)
qed

theorem createSwapChain_sharing_mode_witness:
  "(\<exists>ci. createSwapChain_ci debug_app (800, 600) = Inr ci
        \<and> imageSharingMode ci = VK_SHARING_MODE_CONCURRENT
        \<and> queueFamilyIndexCount ci = 2
        \<and> pQueueFamilyIndices ci = Some [0, 1])
   \<and> (\<exists>ci. createSwapChain_ci
              (debug_app\<lparr>q_indices_' := \<lparr>gfx_family = 2, present_family = 2\<rparr>\<rparr>) (800, 600)
            = Inr ci
        \<and> imageSharingMode ci = VK_SHARING_MODE_EXCLUSIVE
        \<and> queueFamilyIndexCount ci = 0
        \<and> pQueueFamilyIndices ci = None)"
proof -
  let ?shared = "debug_app\<lparr>q_indices_' := \<lparr>gfx_family = 2, present_family = 2\<rparr>\<rparr>"
  have a: "formats (swapchain_support_' debug_app) \<noteq> []"
    and b: "extent_defined (caps (swapchain_support_' debug_app))"
    and a': "formats (swapchain_support_' ?shared) \<noteq> []"
    and b': "extent_defined (caps (swapchain_support_' ?shared))"
    by (simp_all add: debug_app_def example_support_def any_extent_caps_def extent_defined_def)
  have q: "q_indices_' debug_app = \<lparr>gfx_family = 0, present_family = 1\<rparr>"
    "q_indices_' ?shared = \<lparr>gfx_family = 2, present_family = 2\<rparr>"
    by (simp_all add: debug_app_def)
  from createSwapChain_sharing_mode [OF a b, of "(800, 600)"]
       createSwapChain_sharing_mode [OF a' b', of "(800, 600)"]
  show ?thesis
    unfolding q by auto
qed

subsection \<open>Instance extensions\<close>

lemma getRequiredExtensions_value:
  "getRequiredExtensions apple enable (Some names) =
     Inr (names
          @ (if apple then [VK_KHR_PORTABILITY_ENUMERATION_EXTENSION_NAME] else [])
          @ (if enable then [VK_EXT_DEBUG_UTILS_EXTENSION_NAME] else []))"
  by (simp add: getRequiredExtensions_def ASSERT_def)

lemma portability_is_not_debug_utils:
  "VK_KHR_PORTABILITY_ENUMERATION_EXTENSION_NAME \<noteq> VK_EXT_DEBUG_UTILS_EXTENSION_NAME"
  by (simp add: VK_KHR_PORTABILITY_ENUMERATION_EXTENSION_NAME_def
      VK_EXT_DEBUG_UTILS_EXTENSION_NAME_def)

text \<open>
  C8 (as stated). The claim speaks of every list the window system provides. A list that
  names the debug-utils extension itself is copied as it is: with diagnostics disabled the
  result still contains the extension, and with diagnostics enabled it contains it twice.
\<close>

theorem getRequiredExtensions_debug_utils_counterexample:
  "getRequiredExtensions False False (Some [''VK_KHR_surface'', ''VK_EXT_debug_utils''])
     = Inr [''VK_KHR_surface'', ''VK_EXT_debug_utils'']
   \<and> VK_EXT_DEBUG_UTILS_EXTENSION_NAME \<in> set [''VK_KHR_surface'', ''VK_EXT_debug_utils'']
   \<and> getRequiredExtensions False True (Some [''VK_KHR_surface'', ''VK_EXT_debug_utils''])
     = Inr [''VK_KHR_surface'', ''VK_EXT_debug_utils'', ''VK_EXT_debug_utils'']
   \<and> count_list [''VK_KHR_surface'', ''VK_EXT_debug_utils'', ''VK_EXT_debug_utils'']
         VK_EXT_DEBUG_UTILS_EXTENSION_NAME = 2"
  by (simp add: getRequiredExtensions_def ASSERT_def VK_EXT_DEBUG_UTILS_EXTENSION_NAME_def)

text \<open>
  C8 (amended). For every extension list the window system provides, the requested list
  is that list, then the portability-enumeration extension on Apple platforms, then the
  debug-utils extension if and only if diagnostics are enabled. So every
  window-system-required extension is retained, and the debug-utils extension occurs once
  more than in the window-system list when diagnostics are enabled and as often as there
  when they are disabled: for a window-system list that does not name it, exactly once
  and not at all.
\<close>

theorem getRequiredExtensions_debug_utils:
  "\<exists>ext_names.
      getRequiredExtensions apple enable (Some names) = Inr ext_names
      \<and> ext_names =
          names
          @ (if apple then [VK_KHR_PORTABILITY_ENUMERATION_EXTENSION_NAME] else [])
          @ (if enable then [VK_EXT_DEBUG_UTILS_EXTENSION_NAME] else [])
      \<and> take (length names) ext_names = names
      \<and> set names \<subseteq> set ext_names
      \<and> count_list ext_names VK_EXT_DEBUG_UTILS_EXTENSION_NAME
          = count_list names VK_EXT_DEBUG_UTILS_EXTENSION_NAME + (if enable then 1 else 0)
      \<and> (VK_EXT_DEBUG_UTILS_EXTENSION_NAME \<notin> set names \<longrightarrow>
           (if enable then count_list ext_names VK_EXT_DEBUG_UTILS_EXTENSION_NAME = 1
            else VK_EXT_DEBUG_UTILS_EXTENSION_NAME \<notin> set ext_names))"
proof -
  let ?r = "names
          @ (if apple then [VK_KHR_PORTABILITY_ENUMERATION_EXTENSION_NAME] else [])
          @ (if enable then [VK_EXT_DEBUG_UTILS_EXTENSION_NAME] else [])"
  have val: "getRequiredExtensions apple enable (Some names) = Inr ?r"
    by (rule getRequiredExtensions_value)
  have cnt: "count_list ?r VK_EXT_DEBUG_UTILS_EXTENSION_NAME
          = count_list names VK_EXT_DEBUG_UTILS_EXTENSION_NAME + (if enable then 1 else 0)"
    by (simp add: portability_is_not_debug_utils)
  have absent: "VK_EXT_DEBUG_UTILS_EXTENSION_NAME \<notin> set ?r"
    if "VK_EXT_DEBUG_UTILS_EXTENSION_NAME \<notin> set names" and "\<not> enable"
    using that portability_is_not_debug_utils by auto
  have once: "count_list ?r VK_EXT_DEBUG_UTILS_EXTENSION_NAME = 1"
    if "VK_EXT_DEBUG_UTILS_EXTENSION_NAME \<notin> set names" and "enable"
    using that cnt by (simp add: count_list_0_iff)
  have last: "VK_EXT_DEBUG_UTILS_EXTENSION_NAME \<notin> set names \<longrightarrow>
           (if enable then count_list ?r VK_EXT_DEBUG_UTILS_EXTENSION_NAME = 1
            else VK_EXT_DEBUG_UTILS_EXTENSION_NAME \<notin> set ?r)"
  proof (cases enable)
    case True
    with once show ?thesis by presburger
  next
    case False
    with absent show ?thesis by presburger
  qed
  have pre: "take (length names) ?r = names" and sub: "set names \<subseteq> set ?r"
    by auto
  from val pre sub cnt last show ?thesis
    by (intro exI [of _ ?r] conjI) (rule refl | assumption)+
qed

theorem getRequiredExtensions_debug_utils_witness:
  "VK_EXT_DEBUG_UTILS_EXTENSION_NAME \<notin> set [''VK_KHR_surface'', ''VK_KHR_xcb_surface'']
   \<and> getRequiredExtensions False True (Some [''VK_KHR_surface'', ''VK_KHR_xcb_surface''])
       = Inr [''VK_KHR_surface'', ''VK_KHR_xcb_surface'', ''VK_EXT_debug_utils'']
   \<and> count_list [''VK_KHR_surface'', ''VK_KHR_xcb_surface'', ''VK_EXT_debug_utils'']
         VK_EXT_DEBUG_UTILS_EXTENSION_NAME = 1
   \<and> getRequiredExtensions True False (Some [''VK_KHR_surface'', ''VK_KHR_xcb_surface''])
       = Inr [''VK_KHR_surface'', ''VK_KHR_xcb_surface'', ''VK_KHR_portability_enumeration'']
   \<and> VK_EXT_DEBUG_UTILS_EXTENSION_NAME
       \<notin> set [''VK_KHR_surface'', ''VK_KHR_xcb_surface'', ''VK_KHR_portability_enumeration'']"
proof -
  let ?names = "[''VK_KHR_surface'', ''VK_KHR_xcb_surface'']"
  have a: "VK_EXT_DEBUG_UTILS_EXTENSION_NAME \<notin> set ?names"
    by (simp add: VK_EXT_DEBUG_UTILS_EXTENSION_NAME_def)
  have on: "?names @ (if False then [VK_KHR_PORTABILITY_ENUMERATION_EXTENSION_NAME] else [])
              @ (if True then [VK_EXT_DEBUG_UTILS_EXTENSION_NAME] else [])
            = [''VK_KHR_surface'', ''VK_KHR_xcb_surface'', ''VK_EXT_debug_utils'']"
    and off: "?names @ (if True then [VK_KHR_PORTABILITY_ENUMERATION_EXTENSION_NAME] else [])
              @ (if False then [VK_EXT_DEBUG_UTILS_EXTENSION_NAME] else [])
            = [''VK_KHR_surface'', ''VK_KHR_xcb_surface'', ''VK_KHR_portability_enumeration'']"
    by (simp_all add: VK_EXT_DEBUG_UTILS_EXTENSION_NAME_def
        VK_KHR_PORTABILITY_ENUMERATION_EXTENSION_NAME_def)
  from getRequiredExtensions_debug_utils [of False True ?names] a
  obtain e1 where e1: "getRequiredExtensions False True (Some ?names) = Inr e1"
      "e1 = ?names @ (if False then [VK_KHR_PORTABILITY_ENUMERATION_EXTENSION_NAME] else [])
              @ (if True then [VK_EXT_DEBUG_UTILS_EXTENSION_NAME] else [])"
      "count_list e1 VK_EXT_DEBUG_UTILS_EXTENSION_NAME = 1"
    by (metis (full_types))
  from getRequiredExtensions_debug_utils [of True False ?names] a
  obtain e2 where e2: "getRequiredExtensions True False (Some ?names) = Inr e2"
      "e2 = ?names @ (if True then [VK_KHR_PORTABILITY_ENUMERATION_EXTENSION_NAME] else [])
              @ (if False then [VK_EXT_DEBUG_UTILS_EXTENSION_NAME] else [])"
      "VK_EXT_DEBUG_UTILS_EXTENSION_NAME \<notin> set e2"
    by (metis (full_types))
  from e1 on have b: "getRequiredExtensions False True (Some ?names)
       = Inr [''VK_KHR_surface'', ''VK_KHR_xcb_surface'', ''VK_EXT_debug_utils'']"
    and c: "count_list [''VK_KHR_surface'', ''VK_KHR_xcb_surface'', ''VK_EXT_debug_utils'']
         VK_EXT_DEBUG_UTILS_EXTENSION_NAME = 1"
    by simp_all
  from e2 off have d: "getRequiredExtensions True False (Some ?names)
       = Inr [''VK_KHR_surface'', ''VK_KHR_xcb_surface'', ''VK_KHR_portability_enumeration'']"
    and e: "VK_EXT_DEBUG_UTILS_EXTENSION_NAME
       \<notin> set [''VK_KHR_surface'', ''VK_KHR_xcb_surface'', ''VK_KHR_portability_enumeration'']"
    by simp_all
  from a b c d e show ?thesis by blast
qed

subsection \<open>Queue families\<close>

lemma find_map_comp: "find P (map f xs) = map_option f (find (P \<circ> f) xs)"
  by (induction xs) simp_all

lemma find_append_cases:
  "find P (xs @ ys) = (case find P xs of Some x \<Rightarrow> Some x | None \<Rightarrow> find P ys)"
  by (induction xs) simp_all

lemma upt_0_Suc_Cons: "[0..<Suc n] = 0 # map Suc [0..<n]"
  by (simp add: upt_conv_Cons map_Suc_upt del: upt_Suc)

lemma last_match_Nil: "last_match P [] = - 1"
  by (simp add: last_match_def)

lemma last_match_Cons:
  "last_match P (x # xs) =
     (if last_match P xs \<noteq> - 1 then last_match P xs + 1 else if P x then 0 else - 1)"
proof -
  have "rev [0..<length (x # xs)] = map Suc (rev [0..<length xs]) @ [0]"
    by (simp add: upt_0_Suc_Cons rev_map del: upt_Suc)
  then show ?thesis
    by (simp add: last_match_def find_append_cases find_map_comp comp_def
        split: option.splits del: upt_Suc)
qed

lemma scanned_is_scanned_from: "scanned fams = scanned_from False False fams"
  by (simp add: scanned_def scanned_from_def resolved_def both_resolved_def)

lemma scanned_from_Nil: "scanned_from hg hp [] = []"
  by (simp add: scanned_from_def split: option.splits)

lemma scanned_from_Cons:
  assumes "\<not> (hg \<and> hp)"
  shows "scanned_from hg hp (q # qs) =
     (if resolved hg hp [q] then [q]
      else q # scanned_from (hg \<or> graphics q) (hp \<or> presents q) qs)"
proof -
  have step: "resolved hg hp (take (Suc n) (q # qs))
                = resolved (hg \<or> graphics q) (hp \<or> presents q) (take n qs)" for n
    by (auto simp: resolved_def)
  have zero: "\<not> resolved hg hp (take 0 (q # qs))"
    using assms by (simp add: resolved_def)
  have "find (\<lambda>n. resolved hg hp (take n (q # qs))) [0..<Suc (length (q # qs))]
      = map_option Suc
          (find (\<lambda>n. resolved (hg \<or> graphics q) (hp \<or> presents q) (take n qs))
             [0..<Suc (length qs)])"
    using zero
    by (subst upt_0_Suc_Cons) (simp add: find_map_comp comp_def step del: upt_Suc take_Suc_Cons)
  moreover have "find (\<lambda>n. resolved (hg \<or> graphics q) (hp \<or> presents q) (take n qs))
             [0..<Suc (length qs)] = Some 0"
    if "resolved hg hp [q]"
    using that by (subst upt_0_Suc_Cons) (simp add: resolved_def del: upt_Suc)
  moreover have "\<not> resolved (hg \<or> graphics q) (hp \<or> presents q) []" if "\<not> resolved hg hp [q]"
    using that by (simp add: resolved_def)
  ultimately show ?thesis
    by (auto simp: scanned_from_def split: option.splits simp del: upt_Suc)
qed


lemma last_match_ge: "- 1 \<le> last_match P xs"
  by (simp add: last_match_def split: option.splits)

lemma last_match_step:
  assumes "- 1 \<le> (m :: int)"
  shows "(let m' = (if m \<noteq> - 1 then m + 1 else if b then 0 else - 1)
          in if m' = - 1 then old else i + m')
       = (if m = - 1 then (if b then i else old) else i + 1 + m)"
  using assms by (auto simp: Let_def)

lemma findQueueFamilies_loop_scanned:
  assumes "0 \<le> i" and "\<not> isComplete ind"
  shows "findQueueFamilies_loop fams i ind =
     \<lparr>gfx_family =
        (let m = last_match graphics
                   (scanned_from (gfx_family ind \<noteq> - 1) (present_family ind \<noteq> - 1) fams)
         in if m = - 1 then gfx_family ind else i + m),
      present_family =
        (let m = last_match presents
                   (scanned_from (gfx_family ind \<noteq> - 1) (present_family ind \<noteq> - 1) fams)
         in if m = - 1 then present_family ind else i + m)\<rparr>"
  using assms
proof (induction fams arbitrary: i ind)
  case Nil
  then show ?case
    by (simp add: scanned_from_Nil last_match_Nil)
next
  case (Cons q qs)
  define ind' where "ind' =
    (let a = (if graphics q then ind\<lparr>gfx_family := i\<rparr> else ind)
     in if presents q then a\<lparr>present_family := i\<rparr> else a)"
  have gv: "gfx_family ind' = (if graphics q then i else gfx_family ind)"
    and pv: "present_family ind' = (if presents q then i else present_family ind)"
    by (simp_all add: ind'_def)
  have g': "(gfx_family ind' \<noteq> - 1) = (gfx_family ind \<noteq> - 1 \<or> graphics q)"
    and p': "(present_family ind' \<noteq> - 1) = (present_family ind \<noteq> - 1 \<or> presents q)"
    using Cons.prems(1) by (auto simp: gv pv)
  have not_both: "\<not> (gfx_family ind \<noteq> - 1 \<and> present_family ind \<noteq> - 1)"
    using Cons.prems(2) by (simp add: isComplete_def)
  have complete': "isComplete ind' =
      resolved (gfx_family ind \<noteq> - 1) (present_family ind \<noteq> - 1) [q]"
    by (simp add: isComplete_def g' p' resolved_def)
  have unfold: "findQueueFamilies_loop (q # qs) i ind =
      (if isComplete ind' then ind' else findQueueFamilies_loop qs (i + 1) ind')"
    by (simp add: ind'_def Let_def)
  show ?case
  proof (cases "isComplete ind'")
    case True
    have "ind' = \<lparr>gfx_family = gfx_family ind', present_family = present_family ind'\<rparr>"
      by simp
    with True show ?thesis
      unfolding unfold scanned_from_Cons [OF not_both] complete' [symmetric]
      by (simp add: last_match_Cons last_match_Nil gv pv)
  next
    case False
    have "0 \<le> i + 1" using Cons.prems(1) by simp
    note IH = Cons.IH [OF this False, unfolded g' p']
    from False show ?thesis
      unfolding unfold scanned_from_Cons [OF not_both] complete' [symmetric]
      by (simp only: IH last_match_Cons last_match_step [OF last_match_ge] if_False)
         (simp add: gv pv Let_def)
  qed
qed

lemma findQueueFamilies_last_match:
  "findQueueFamilies device =
     \<lparr>gfx_family = last_match graphics (scanned (q_families device)),
      present_family = last_match presents (scanned (q_families device))\<rparr>"
proof -
  have "\<not> isComplete \<lparr>gfx_family = - 1, present_family = - 1\<rparr>"
    by (simp add: isComplete_def)
  from findQueueFamilies_loop_scanned [OF _ this, of 0 "q_families device"]
  show ?thesis
    by (simp add: findQueueFamilies_def scanned_is_scanned_from Let_def)
qed

lemma last_match_none: "last_match P xs = - 1 \<longleftrightarrow> (\<forall>x \<in> set xs. \<not> P x)"
proof (induction xs)
  case Nil
  show ?case by (simp add: last_match_Nil)
next
  case (Cons x xs)
  have "- 1 \<le> last_match P xs" by (rule last_match_ge)
  with Cons show ?case
    by (auto simp: last_match_Cons)
qed

lemma last_match_is_last:
  assumes "last_match P xs = int k"
  shows "k < length xs \<and> P (xs ! k) \<and> (\<forall>j. k < j \<and> j < length xs \<longrightarrow> \<not> P (xs ! j))"
proof -
  from assms have f: "find (\<lambda>i. P (xs ! i)) (rev [0..<length xs]) = Some k"
    by (auto simp: last_match_def split: option.splits)
  then obtain n where n: "n < length xs" "P (xs ! (rev [0..<length xs] ! n))"
      "k = rev [0..<length xs] ! n" "\<forall>j<n. \<not> P (xs ! (rev [0..<length xs] ! j))"
    unfolding find_Some_iff by auto
  have k: "k = length xs - Suc n" using n(1,3) by (simp add: rev_nth)
  have "\<not> P (xs ! j)" if "k < j" "j < length xs" for j
  proof -
    have a: "length xs - Suc j < n" using that k n(1) by arith
    have b: "rev [0..<length xs] ! (length xs - Suc j) = j"
      using that by (simp add: rev_nth)
    from n(4) a have "\<not> P (xs ! (rev [0..<length xs] ! (length xs - Suc j)))" by blast
    then show ?thesis by (simp add: b)
  qed
  moreover have "k < length xs" using k n(1) by arith
  moreover have "P (xs ! k)" using n(2,3) by simp
  ultimately show ?thesis by blast
qed

lemma scanned_shortest_prefix:
  "\<exists>n \<le> length fams. scanned fams = take n fams
      \<and> (\<forall>m < n. \<not> both_resolved (take m fams))
      \<and> (n < length fams \<longrightarrow> both_resolved (take n fams))"
proof (cases "find (\<lambda>n. both_resolved (take n fams)) [0..<Suc (length fams)]")
  case None
  then have "\<forall>m < Suc (length fams). \<not> both_resolved (take m fams)"
    unfolding find_None_iff by (simp del: upt_Suc)
  with None show ?thesis
    by (intro exI [of _ "length fams"]) (simp add: scanned_def)
next
  case (Some n)
  then obtain i where i: "i < Suc (length fams)" "both_resolved (take ([0..<Suc (length fams)] ! i) fams)"
      "n = [0..<Suc (length fams)] ! i"
      "\<forall>j<i. \<not> both_resolved (take ([0..<Suc (length fams)] ! j) fams)"
    unfolding find_Some_iff by auto
  have ni: "n = i" using i(1,3) by (simp del: upt_Suc)
  have "\<not> both_resolved (take m fams)" if "m < n" for m
  proof -
    have "[0..<Suc (length fams)] ! m = m"
      using that i(1) ni by (simp del: upt_Suc)
    with i(4) that ni show ?thesis by auto
  qed
  moreover have "both_resolved (take n fams)" using i(2,3) by simp
  moreover have "n \<le> length fams" using i(1) ni by simp
  ultimately show ?thesis using Some
    by (intro exI [of _ n]) (simp add: scanned_def)
qed

lemma both_resolved_scanned: "both_resolved (scanned fams) \<longleftrightarrow> both_resolved fams"
proof
  assume "both_resolved (scanned fams)"
  moreover obtain n where "scanned fams = take n fams"
    using scanned_shortest_prefix by blast
  ultimately show "both_resolved fams"
    by (auto simp: both_resolved_def dest: in_set_takeD)
next
  assume a: "both_resolved fams"
  obtain n where n: "n \<le> length fams" "scanned fams = take n fams"
      "n < length fams \<longrightarrow> both_resolved (take n fams)"
    using scanned_shortest_prefix by blast
  show "both_resolved (scanned fams)"
  proof (cases "n < length fams")
    case True
    with n show ?thesis by simp
  next
    case False
    with n(1,2) a show ?thesis by simp
  qed
qed

lemma isComplete_findQueueFamilies:
  "isComplete (findQueueFamilies device) \<longleftrightarrow> both_resolved (q_families device)"
proof -
  have "isComplete (findQueueFamilies device) \<longleftrightarrow> both_resolved (scanned (q_families device))"
    unfolding findQueueFamilies_last_match
    by (simp add: isComplete_def last_match_none both_resolved_def)
  then show ?thesis
    by (simp only: both_resolved_scanned)
qed

text \<open>
  C5. \<open>findQueueFamilies\<close> scans the families in index order and stops as soon as both
  indices are resolved: the families it scans are \<open>scanned\<close>, the shortest prefix with a
  graphics and a presenting family (all families if there is none). Every match
  overwrites the recorded index, so the mapping returned holds, for each capability, the
  last index among the scanned families of a family with that capability, and \<open>-1\<close> if
  there is none (\<open>last_match\<close>): no scanned family after the recorded index has the
  capability.
\<close>

theorem findQueueFamilies_scanned:
  "findQueueFamilies device =
     \<lparr>gfx_family = last_match graphics (scanned (q_families device)),
      present_family = last_match presents (scanned (q_families device))\<rparr>
   \<and> (\<exists>n \<le> length (q_families device).
         scanned (q_families device) = take n (q_families device)
         \<and> (\<forall>m < n. \<not> both_resolved (take m (q_families device)))
         \<and> (n < length (q_families device) \<longrightarrow> both_resolved (take n (q_families device))))
   \<and> (gfx_family (findQueueFamilies device) = - 1
         \<longleftrightarrow> (\<forall>q \<in> set (scanned (q_families device)). \<not> graphics q))
   \<and> (present_family (findQueueFamilies device) = - 1
         \<longleftrightarrow> (\<forall>q \<in> set (scanned (q_families device)). \<not> presents q))
   \<and> (\<forall>k. gfx_family (findQueueFamilies device) = int k \<longrightarrow>
          k < length (scanned (q_families device))
          \<and> graphics (scanned (q_families device) ! k)
          \<and> (\<forall>j. k < j \<and> j < length (scanned (q_families device)) \<longrightarrow>
                 \<not> graphics (scanned (q_families device) ! j)))
   \<and> (\<forall>k. present_family (findQueueFamilies device) = int k \<longrightarrow>
          k < length (scanned (q_families device))
          \<and> presents (scanned (q_families device) ! k)
          \<and> (\<forall>j. k < j \<and> j < length (scanned (q_families device)) \<longrightarrow>
                 \<not> presents (scanned (q_families device) ! j)))"
proof (intro conjI allI impI)
  show "findQueueFamilies device =
     \<lparr>gfx_family = last_match graphics (scanned (q_families device)),
      present_family = last_match presents (scanned (q_families device))\<rparr>"
    by (rule findQueueFamilies_last_match)
  show "\<exists>n \<le> length (q_families device).
         scanned (q_families device) = take n (q_families device)
         \<and> (\<forall>m < n. \<not> both_resolved (take m (q_families device)))
         \<and> (n < length (q_families device) \<longrightarrow> both_resolved (take n (q_families device)))"
    by (rule scanned_shortest_prefix)
  show "gfx_family (findQueueFamilies device) = - 1
         \<longleftrightarrow> (\<forall>q \<in> set (scanned (q_families device)). \<not> graphics q)"
    by (simp add: findQueueFamilies_last_match last_match_none)
  show "present_family (findQueueFamilies device) = - 1
         \<longleftrightarrow> (\<forall>q \<in> set (scanned (q_families device)). \<not> presents q)"
    by (simp add: findQueueFamilies_last_match last_match_none)
next
  fix k assume "gfx_family (findQueueFamilies device) = int k"
  then have "last_match graphics (scanned (q_families device)) = int k"
    by (simp add: findQueueFamilies_last_match)
  from last_match_is_last [OF this]
  show "k < length (scanned (q_families device))"
    and "graphics (scanned (q_families device) ! k)"
    and "\<And>j. k < j \<and> j < length (scanned (q_families device)) \<Longrightarrow>
           \<not> graphics (scanned (q_families device) ! j)"
    by blast+
next
  fix k assume "present_family (findQueueFamilies device) = int k"
  then have "last_match presents (scanned (q_families device)) = int k"
    by (simp add: findQueueFamilies_last_match)
  from last_match_is_last [OF this]
  show "k < length (scanned (q_families device))"
    and "presents (scanned (q_families device) ! k)"
    and "\<And>j. k < j \<and> j < length (scanned (q_families device)) \<Longrightarrow>
           \<not> presents (scanned (q_families device) ! j)"
    by blast+
qed

theorem findQueueFamilies_scanned_witness:
  "scanned [gfx_only, compute_only, gfx_only, present_only, gfx_only, present_only]
     = [gfx_only, compute_only, gfx_only, present_only]
   \<and> findQueueFamilies
       \<lparr>q_families = [gfx_only, compute_only, gfx_only, present_only, gfx_only, present_only],
        extensions = [], surface_caps = any_extent_caps, surface_formats = [],
        surface_present_modes = []\<rparr>
     = \<lparr>gfx_family = 2, present_family = 3\<rparr>"
proof -
  have g: "graphics gfx_only" "\<not> graphics compute_only" "\<not> graphics present_only"
    and p: "\<not> presents gfx_only" "\<not> presents compute_only" "presents present_only"
    by (simp_all add: graphics_def presents_def gfx_only_def compute_only_def present_only_def
        VK_QUEUE_GRAPHICS_BIT_def)
  have s: "scanned [gfx_only, compute_only, gfx_only, present_only, gfx_only, present_only]
     = [gfx_only, compute_only, gfx_only, present_only]"
    by (simp add: scanned_def both_resolved_def g p upt_0_Suc_Cons del: upt_Suc)
  have l: "last_match graphics [gfx_only, compute_only, gfx_only, present_only] = 2"
    "last_match presents [gfx_only, compute_only, gfx_only, present_only] = 3"
    by (simp_all add: last_match_Cons last_match_Nil g p)
  show ?thesis
    using findQueueFamilies_scanned
      [THEN conjunct1, of "\<lparr>q_families = [gfx_only, compute_only, gfx_only, present_only, gfx_only, present_only],
        extensions = [], surface_caps = any_extent_caps, surface_formats = [],
        surface_present_modes = []\<rparr>"]
    by (simp add: s l)
qed


subsection \<open>Device selection\<close>

lemma subset_add_mset_notin:
  assumes "x \<notin># A"
  shows "A \<subseteq># add_mset x B \<longleftrightarrow> A \<subseteq># B"
proof
  assume a: "A \<subseteq># add_mset x B"
  show "A \<subseteq># B"
    unfolding subseteq_mset_def
  proof
    fix a
    from a have le: "count A a \<le> count (add_mset x B) a"
      by (simp add: subseteq_mset_def del: count_add_mset)
    show "count A a \<le> count B a"
    proof (cases "a = x")
      case True
      with assms show ?thesis by (simp add: not_in_iff)
    next
      case False
      with le show ?thesis by simp
    qed
  qed
next
  assume "A \<subseteq># B"
  then show "A \<subseteq># add_mset x B"
    by (simp add: subseteq_mset_def le_SucI)
qed

lemma std_includes_mset:
  "sorted xs \<Longrightarrow> sorted ys \<Longrightarrow> std_includes xs ys \<longleftrightarrow> mset ys \<subseteq># mset xs"
proof (induction xs ys rule: std_includes.induct)
  case (1 xs)
  show ?case by simp
next
  case (2 y ys)
  show ?case by simp
next
  case (3 x xs y ys)
  from "3.prems" have sx: "sorted xs" and sy: "sorted ys"
    and lx: "\<forall>z \<in> set xs. x \<le> z" and ly: "\<forall>z \<in> set ys. y \<le> z"
    by simp_all
  consider (lt) "y < x" | (eq) "x = y" | (gt) "x < y"
    by (metis less_linear)
  then show ?case
  proof cases
    case lt
    with lx have "y \<notin> set (x # xs)" by auto
    then have "\<not> mset (y # ys) \<subseteq># mset (x # xs)"
      using mset_subset_eqD [of "mset (y # ys)" "mset (x # xs)" y] by auto
    with lt show ?thesis by simp
  next
    case eq
    with "3.IH"(1) sx sy show ?thesis by simp
  next
    case gt
    with ly have "x \<notin> set (y # ys)" by auto
    then have "mset (y # ys) \<subseteq># mset (x # xs) \<longleftrightarrow> mset (y # ys) \<subseteq># mset xs"
      using subset_add_mset_notin [of x "mset (y # ys)" "mset xs"] by simp
    moreover from gt have "\<not> y < x" by auto
    ultimately show ?thesis
      using gt "3.IH"(2) sx "3.prems"(2) by simp
  qed
qed


lemma checkDeviceExtensionSupport_mset:
  "checkDeviceExtensionSupport device \<longleftrightarrow> mset device_extensions \<subseteq># mset (extensions device)"
  by (simp add: checkDeviceExtensionSupport_def std_includes_mset)

lemma isDeviceSuitable_verdict:
  "fst (isDeviceSuitable device app) \<longleftrightarrow>
     isComplete (findQueueFamilies device)
     \<and> checkDeviceExtensionSupport device
     \<and> surface_formats device \<noteq> [] \<and> surface_present_modes device \<noteq> []"
  by (simp add: isDeviceSuitable_def querySwapChainSupport_def Let_def)

lemma isDeviceSuitable_state:
  "snd (isDeviceSuitable device app) =
     (if fst (isDeviceSuitable device app)
      then app\<lparr>q_indices_' := findQueueFamilies device,
               swapchain_support_' := querySwapChainSupport device\<rparr>
      else app)"
  by (simp add: isDeviceSuitable_def Let_def)

lemma isDeviceSuitable_any_app:
  "fst (isDeviceSuitable device app) = fst (isDeviceSuitable device app0)"
  by (simp only: isDeviceSuitable_verdict)

lemma pickPhysicalDevice_loop_Cons:
  "pickPhysicalDevice_loop (device # devices) app =
     (if fst (isDeviceSuitable device app)
      then app\<lparr>q_indices_' := findQueueFamilies device,
               swapchain_support_' := querySwapChainSupport device,
               physical_device_' := Some device\<rparr>
      else pickPhysicalDevice_loop devices app)"
proof -
  obtain b app' where r: "isDeviceSuitable device app = (b, app')"
    by (cases "isDeviceSuitable device app")
  with isDeviceSuitable_state [of device app] show ?thesis
    by (cases b) simp_all
qed

lemma pickPhysicalDevice_loop_none:
  "\<forall>x \<in> set devices. \<not> fst (isDeviceSuitable x app) \<Longrightarrow>
     pickPhysicalDevice_loop devices app = app"
  by (induction devices)
     (simp_all add: pickPhysicalDevice_loop_Cons del: pickPhysicalDevice_loop.simps(2))

lemma pickPhysicalDevice_loop_first:
  assumes "\<forall>x \<in> set pre. \<not> fst (isDeviceSuitable x app)" and "fst (isDeviceSuitable d app)"
  shows "pickPhysicalDevice_loop (pre @ d # post) app =
     app\<lparr>q_indices_' := findQueueFamilies d,
         swapchain_support_' := querySwapChainSupport d,
         physical_device_' := Some d\<rparr>"
  using assms
  by (induction pre)
     (simp_all add: pickPhysicalDevice_loop_Cons del: pickPhysicalDevice_loop.simps(2))

lemma first_suitable_split:
  assumes "\<exists>x \<in> set devices. P x"
  shows "\<exists>pre d post. devices = pre @ d # post \<and> (\<forall>x \<in> set pre. \<not> P x) \<and> P d"
  using assms by (metis split_list_first_prop)

text \<open>
  C1. A device is suitable exactly if \<open>findQueueFamilies\<close> resolves both of its indices
  (that is, it has a graphics family and a presenting family), the required extension
  names are, as a multiset of exact strings, among its available ones, and its format
  list and present-mode list are non-empty. \<open>pickPhysicalDevice\<close> selects the first
  suitable device in enumeration order and caches its mapping and snapshot: whatever
  device it ends with, starting from the null handle, is suitable and has no suitable
  device before it; without a suitable device it fails.
\<close>

theorem pickPhysicalDevice_first_suitable:
  "(fst (isDeviceSuitable device app) \<longleftrightarrow>
        isComplete (findQueueFamilies device)
      \<and> mset device_extensions \<subseteq># mset (extensions device)
      \<and> surface_formats device \<noteq> [] \<and> surface_present_modes device \<noteq> [])
   \<and> (isComplete (findQueueFamilies device) \<longleftrightarrow>
        (\<exists>q \<in> set (q_families device). graphics q) \<and> (\<exists>q \<in> set (q_families device). presents q))
   \<and> (\<forall>pre d post.
         devices = pre @ d # post
         \<and> (\<forall>x \<in> set pre. \<not> fst (isDeviceSuitable x app)) \<and> fst (isDeviceSuitable d app) \<longrightarrow>
           pickPhysicalDevice devices app =
             Inr (app\<lparr>q_indices_' := findQueueFamilies d,
                      swapchain_support_' := querySwapChainSupport d,
                      physical_device_' := Some d\<rparr>))
   \<and> (physical_device_' app = None \<longrightarrow>
        (\<forall>app' d.
           pickPhysicalDevice devices app = Inr app' \<and> physical_device_' app' = Some d \<longrightarrow>
             fst (isDeviceSuitable d app)
             \<and> (\<exists>pre post. devices = pre @ d # post
                   \<and> (\<forall>x \<in> set pre. \<not> fst (isDeviceSuitable x app)))))
   \<and> (physical_device_' app = None \<and> (\<forall>x \<in> set devices. \<not> fst (isDeviceSuitable x app)) \<longrightarrow>
        pickPhysicalDevice devices app = Inl AssertFailed)"
proof (intro conjI allI impI)
  show "fst (isDeviceSuitable device app) \<longleftrightarrow>
        isComplete (findQueueFamilies device)
      \<and> mset device_extensions \<subseteq># mset (extensions device)
      \<and> surface_formats device \<noteq> [] \<and> surface_present_modes device \<noteq> []"
    by (simp only: isDeviceSuitable_verdict checkDeviceExtensionSupport_mset)
  show "isComplete (findQueueFamilies device) \<longleftrightarrow>
        (\<exists>q \<in> set (q_families device). graphics q) \<and> (\<exists>q \<in> set (q_families device). presents q)"
    by (simp only: isComplete_findQueueFamilies both_resolved_def)
next
  fix pre d post
  assume a: "devices = pre @ d # post
         \<and> (\<forall>x \<in> set pre. \<not> fst (isDeviceSuitable x app)) \<and> fst (isDeviceSuitable d app)"
  then have "pickPhysicalDevice_loop devices app =
     app\<lparr>q_indices_' := findQueueFamilies d,
         swapchain_support_' := querySwapChainSupport d,
         physical_device_' := Some d\<rparr>"
    by (simp add: pickPhysicalDevice_loop_first)
  with a show "pickPhysicalDevice devices app =
             Inr (app\<lparr>q_indices_' := findQueueFamilies d,
                      swapchain_support_' := querySwapChainSupport d,
                      physical_device_' := Some d\<rparr>)"
    by (simp add: pickPhysicalDevice_def ASSERT_def)
next
  fix app' d
  assume fresh: "physical_device_' app = None"
    and r: "pickPhysicalDevice devices app = Inr app' \<and> physical_device_' app' = Some d"
  have some: "\<exists>x \<in> set devices. fst (isDeviceSuitable x app)"
  proof (rule ccontr)
    assume "\<not> (\<exists>x \<in> set devices. fst (isDeviceSuitable x app))"
    then have "pickPhysicalDevice_loop devices app = app"
      by (simp add: pickPhysicalDevice_loop_none)
    with fresh r show False
      by (simp add: pickPhysicalDevice_def ASSERT_def split: if_splits)
  qed
  then obtain pre e post where split: "devices = pre @ e # post"
      "\<forall>x \<in> set pre. \<not> fst (isDeviceSuitable x app)" "fst (isDeviceSuitable e app)"
    using first_suitable_split [of devices "\<lambda>x. fst (isDeviceSuitable x app)"] by blast
  then have "physical_device_' (pickPhysicalDevice_loop devices app) = Some e"
    by (simp add: pickPhysicalDevice_loop_first)
  moreover from r have "physical_device_' (pickPhysicalDevice_loop devices app) = Some d"
    by (auto simp: pickPhysicalDevice_def ASSERT_def Let_def split: if_splits)
  ultimately have "e = d"
    by simp
  with split show "fst (isDeviceSuitable d app)"
    and "\<exists>pre post. devices = pre @ d # post \<and> (\<forall>x \<in> set pre. \<not> fst (isDeviceSuitable x app))"
    by blast+
next
  assume "physical_device_' app = None \<and> (\<forall>x \<in> set devices. \<not> fst (isDeviceSuitable x app))"
  then show "pickPhysicalDevice devices app = Inl AssertFailed"
    by (simp add: pickPhysicalDevice_def ASSERT_def pickPhysicalDevice_loop_none)
qed


theorem pickPhysicalDevice_first_suitable_witness:
  "\<not> fst (isDeviceSuitable no_graphics_device fresh_app)
   \<and> \<not> fst (isDeviceSuitable no_swapchain_device fresh_app)
   \<and> \<not> fst (isDeviceSuitable no_present_modes_device fresh_app)
   \<and> fst (isDeviceSuitable suitable_device fresh_app)
   \<and> pickPhysicalDevice
         [no_graphics_device, no_swapchain_device, no_present_modes_device,
          suitable_device, other_suitable_device] fresh_app
       = Inr (fresh_app
               \<lparr>q_indices_' := \<lparr>gfx_family = 0, present_family = 1\<rparr>,
                swapchain_support_' := querySwapChainSupport suitable_device,
                physical_device_' := Some suitable_device\<rparr>)"
proof -
  have fams: "graphics gfx_only" "\<not> graphics compute_only" "\<not> graphics present_only"
    "\<not> presents gfx_only" "\<not> presents compute_only" "presents present_only"
    by (simp_all add: graphics_def presents_def gfx_only_def compute_only_def present_only_def
        VK_QUEUE_GRAPHICS_BIT_def)
  have names: "device_extensions = [''VK_KHR_swapchain'']"
    by (simp add: device_extensions_def VK_KHR_SWAPCHAIN_EXTENSION_NAME_def)
  have u1: "\<not> fst (isDeviceSuitable no_graphics_device fresh_app)"
    using pickPhysicalDevice_first_suitable [of no_graphics_device fresh_app "[]"]
    by (simp add: no_graphics_device_def fams)
  have u2: "\<not> fst (isDeviceSuitable no_swapchain_device fresh_app)"
    using pickPhysicalDevice_first_suitable [of no_swapchain_device fresh_app "[]"]
    by (simp add: no_swapchain_device_def names)
  have u3: "\<not> fst (isDeviceSuitable no_present_modes_device fresh_app)"
    using pickPhysicalDevice_first_suitable [of no_present_modes_device fresh_app "[]"]
    by (simp add: no_present_modes_device_def)
  have s: "fst (isDeviceSuitable suitable_device fresh_app)"
    using pickPhysicalDevice_first_suitable [of suitable_device fresh_app "[]"]
    by (simp add: suitable_device_def names fams example_formats_def)
  have q: "findQueueFamilies suitable_device = \<lparr>gfx_family = 0, present_family = 1\<rparr>"
    by (simp add: findQueueFamilies_def suitable_device_def fams isComplete_def)
  let ?devices = "[no_graphics_device, no_swapchain_device, no_present_modes_device,
          suitable_device, other_suitable_device]"
  have split: "?devices = [no_graphics_device, no_swapchain_device, no_present_modes_device]
      @ suitable_device # [other_suitable_device]"
    by simp
  have pre: "\<forall>x \<in> set [no_graphics_device, no_swapchain_device, no_present_modes_device].
      \<not> fst (isDeviceSuitable x fresh_app)"
    using u1 u2 u3 by simp
  from pickPhysicalDevice_first_suitable [of suitable_device fresh_app ?devices]
  have "\<forall>pre d post.
         ?devices = pre @ d # post
         \<and> (\<forall>x \<in> set pre. \<not> fst (isDeviceSuitable x fresh_app))
         \<and> fst (isDeviceSuitable d fresh_app) \<longrightarrow>
           pickPhysicalDevice ?devices fresh_app =
             Inr (fresh_app\<lparr>q_indices_' := findQueueFamilies d,
                      swapchain_support_' := querySwapChainSupport d,
                      physical_device_' := Some d\<rparr>)"
    by blast
  with split pre s have "pickPhysicalDevice ?devices fresh_app =
             Inr (fresh_app\<lparr>q_indices_' := findQueueFamilies suitable_device,
                      swapchain_support_' := querySwapChainSupport suitable_device,
                      physical_device_' := Some suitable_device\<rparr>)"
    by blast
  with u1 u2 u3 s q show ?thesis
    by simp
qed


subsection \<open>Teardown\<close>

text \<open>
  C9 (as stated). The claim calls the teardown order the strict reverse of the creation
  order. \<open>initVulkan\<close> creates the messenger before the surface, so the reverse creation
  order destroys the surface before the messenger; \<open>cleanup\<close> destroys the messenger
  first. In a debug build with one image view the two orders differ.
\<close>

theorem cleanup_reverse_creation_counterexample:
  "cleanup (\<lambda>name. True) debug_app =
     Inr [ImageView 7, Swapchain, Device, DebugMessenger, Surface, Instance, Window,
          WindowingSubsystem]
   \<and> rev (creation_order (enable_validation_layers_' debug_app) (swapchain_views_' debug_app)) =
       [ImageView 7, Swapchain, Device, Surface, DebugMessenger, Instance, Window,
        WindowingSubsystem]
   \<and> cleanup (\<lambda>name. True) debug_app
       \<noteq> Inr (rev (creation_order (enable_validation_layers_' debug_app)
                    (swapchain_views_' debug_app)))"
  by (simp add: cleanup_def ASSERT_def debug_app_def creation_order_def initWindow_creates_def
      initVulkan_creates_def)

text \<open>
  C9 (amended). The teardown sequence destroys every image view, in the order of the
  view array, then the swapchain, then the logical device, then the diagnostics messenger
  (only with diagnostics enabled, which is when it was created), then the surface, then
  the instance, then the window and the windowing subsystem; it destroys exactly the
  objects that were created, each once. With diagnostics disabled the objects other than
  the image views are destroyed in reverse creation order, no messenger is destroyed and
  the teardown does not fail. With diagnostics enabled the messenger is destroyed before
  the surface although it was created before it, so the order is then not the reverse
  creation order; it completes if the runtime provides the destroy function.
\<close>

theorem cleanup_order:
  "(\<not> enable_validation_layers_' app \<longrightarrow>
      cleanup load app =
        Inr (map ImageView (swapchain_views_' app)
               @ [Swapchain, Device, Surface, Instance, Window, WindowingSubsystem])
      \<and> cleanup load app =
          Inr (map ImageView (swapchain_views_' app) @ rev (creation_order False [])))
   \<and> (enable_validation_layers_' app \<and> load ''vkDestroyDebugUtilsMessengerEXT'' \<longrightarrow>
      cleanup load app =
        Inr (map ImageView (swapchain_views_' app)
               @ [Swapchain, Device, DebugMessenger, Surface, Instance, Window,
                  WindowingSubsystem])
      \<and> cleanup load app \<noteq>
          Inr (map ImageView (swapchain_views_' app) @ rev (creation_order True [])))
   \<and> (\<forall>destroyed. cleanup load app = Inr destroyed \<longrightarrow>
        mset destroyed
          = mset (creation_order (enable_validation_layers_' app) (swapchain_views_' app))
        \<and> (DebugMessenger \<in> set destroyed \<longleftrightarrow> enable_validation_layers_' app))"
proof (intro conjI impI allI)
  assume off: "\<not> enable_validation_layers_' app"
  then show "cleanup load app =
        Inr (map ImageView (swapchain_views_' app)
               @ [Swapchain, Device, Surface, Instance, Window, WindowingSubsystem])"
    by (simp add: cleanup_def)
  from off show "cleanup load app =
          Inr (map ImageView (swapchain_views_' app) @ rev (creation_order False []))"
    by (simp add: cleanup_def creation_order_def initWindow_creates_def initVulkan_creates_def)
next
  assume on: "enable_validation_layers_' app \<and> load ''vkDestroyDebugUtilsMessengerEXT''"
  then show "cleanup load app =
        Inr (map ImageView (swapchain_views_' app)
               @ [Swapchain, Device, DebugMessenger, Surface, Instance, Window,
                  WindowingSubsystem])"
    by (simp add: cleanup_def ASSERT_def)
  from on show "cleanup load app \<noteq>
          Inr (map ImageView (swapchain_views_' app) @ rev (creation_order True []))"
    by (simp add: cleanup_def ASSERT_def creation_order_def initWindow_creates_def
        initVulkan_creates_def)
next
  fix destroyed
  assume r: "cleanup load app = Inr destroyed"
  then show "mset destroyed
          = mset (creation_order (enable_validation_layers_' app) (swapchain_views_' app))"
    by (auto simp: cleanup_def ASSERT_def creation_order_def initWindow_creates_def
        initVulkan_creates_def Let_def split: if_splits)
  from r show "DebugMessenger \<in> set destroyed \<longleftrightarrow> enable_validation_layers_' app"
    by (auto simp: cleanup_def ASSERT_def Let_def split: if_splits)
qed

theorem cleanup_order_witness:
  "cleanup (\<lambda>name. False) release_app =
     Inr [ImageView 7, ImageView 8, ImageView 9, Swapchain, Device, Surface, Instance, Window,
          WindowingSubsystem]
   \<and> DebugMessenger \<notin> set [ImageView 7, ImageView 8, ImageView 9, Swapchain, Device, Surface,
                            Instance, Window, WindowingSubsystem]
   \<and> cleanup (\<lambda>name. True) debug_app =
     Inr [ImageView 7, Swapchain, Device, DebugMessenger, Surface, Instance, Window,
          WindowingSubsystem]
   \<and> mset [ImageView 7, Swapchain, Device, DebugMessenger, Surface, Instance, Window,
           WindowingSubsystem]
       = mset (creation_order True [7])"
proof -
  have off: "\<not> enable_validation_layers_' release_app"
    and on: "enable_validation_layers_' debug_app \<and> (\<lambda>name. True) ''vkDestroyDebugUtilsMessengerEXT''"
    and views: "swapchain_views_' release_app = [7, 8, 9]" "swapchain_views_' debug_app = [7]"
    by (simp_all add: release_app_def debug_app_def)
  from cleanup_order [of release_app "\<lambda>name. False"] off
  have "cleanup (\<lambda>name. False) release_app =
        Inr (map ImageView (swapchain_views_' release_app)
               @ [Swapchain, Device, Surface, Instance, Window, WindowingSubsystem])"
    by blast
  with views have a: "cleanup (\<lambda>name. False) release_app =
     Inr [ImageView 7, ImageView 8, ImageView 9, Swapchain, Device, Surface, Instance, Window,
          WindowingSubsystem]"
    by simp
  from cleanup_order [of release_app "\<lambda>name. False"] off a
  have b: "DebugMessenger \<notin> set [ImageView 7, ImageView 8, ImageView 9, Swapchain, Device,
                                 Surface, Instance, Window, WindowingSubsystem]"
    by blast
  from cleanup_order [of debug_app "\<lambda>name. True"] on
  have "cleanup (\<lambda>name. True) debug_app =
        Inr (map ImageView (swapchain_views_' debug_app)
               @ [Swapchain, Device, DebugMessenger, Surface, Instance, Window,
                  WindowingSubsystem])"
    by blast
  with views have c: "cleanup (\<lambda>name. True) debug_app =
     Inr [ImageView 7, Swapchain, Device, DebugMessenger, Surface, Instance, Window,
          WindowingSubsystem]"
    by simp
  from cleanup_order [of debug_app "\<lambda>name. True"] c
  have "mset [ImageView 7, Swapchain, Device, DebugMessenger, Surface, Instance, Window,
              WindowingSubsystem]
       = mset (creation_order (enable_validation_layers_' debug_app) (swapchain_views_' debug_app))"
    by blast
  with on views have d: "mset [ImageView 7, Swapchain, Device, DebugMessenger, Surface, Instance,
                               Window, WindowingSubsystem]
       = mset (creation_order True [7])"
    by simp
  from a b c d show ?thesis by blast
qed

end
